theory Spec2Isabelle
  imports Main "HOL-Library.Word"
begin

section \<open>Machine types, errors and the transaction environment\<close>

type_synonym address = "160 word"
type_synonym uint8 = "8 word"
type_synonym uint32 = "32 word"
type_synonym uint256 = "256 word"

text \<open>
  The custom errors of \<^verbatim>\<open>examples/logistics-optimizer/contracts/LogisticsRouteOptimizer.sol\<close>.
  The contract in \<^verbatim>\<open>contracts/LogisticsRouteOptimizer.sol\<close> reverts through
  \<^verbatim>\<open>require(cond, "message")\<close>; each message is mapped to the error of the same wording
  ("Not authorized" is \<open>NotAuthorized\<close>, "Route not processed" is \<open>RouteNotProcessed\<close>, ...).
  \<open>Panic\<close> is the revert of Solidity 0.8 checked arithmetic and of an array index out of
  bounds. \<open>ACLNotAllowed\<close> is the revert of the FHE library when the calling contract
  operates on a handle it is not allowed on.
\<close>

datatype error =
    NotAuthorized
  | NotYourRoute
  | CoordinateArraysMismatch
  | PriorityArrayMismatch
  | NoLocationsProvided
  | RouteAlreadyProcessed
  | InvalidRoute
  | InvalidLocationIndex
  | LocationAlreadyCompleted
  | RouteNotProcessed
  | ContractPaused
  | NotPauser
  | AlreadyPauser
  | InvalidAddress
  | Panic
  | ACLNotAllowed

text \<open>\<open>msg.sender\<close>, \<open>block.timestamp\<close>, \<open>block.number\<close> and \<open>address(this)\<close>.\<close>

record env =
  sender :: address
  block_timestamp :: uint256
  block_number :: uint256
  self :: address

section \<open>The homomorphic engine\<close>

text \<open>
  The FHE library is external to the repository. A ciphertext handle is modelled as the
  term that built it: a trivial encryption of a plaintext, or an operation applied to
  handles. The zero handle of unwritten storage is \<open>Uninit\<close>. Decryption gives the
  plaintext a gateway would return: the engine's arithmetic on \<open>euint32\<close> is arithmetic
  modulo \<open>2 ^ 32\<close>, which is the arithmetic of \<open>32 word\<close>.
\<close>

datatype euint32 =
    Uninit32
  | AsEuint32 uint32
  | Add32 euint32 euint32
  | Sub32 euint32 euint32
  | Mul32 euint32 euint32

datatype euint8 = Uninit8 | AsEuint8 uint8

datatype euint64 = Uninit64 | AsEuint64 euint32 | Mul64 euint64 euint64

datatype handle = H32 euint32 | H8 euint8 | H64 euint64

fun decrypt32 :: "euint32 \<Rightarrow> uint32" where
  "decrypt32 Uninit32 = 0"
| "decrypt32 (AsEuint32 v) = v"
| "decrypt32 (Add32 a b) = decrypt32 a + decrypt32 b"
| "decrypt32 (Sub32 a b) = decrypt32 a - decrypt32 b"
| "decrypt32 (Mul32 a b) = decrypt32 a * decrypt32 b"

text \<open>
  The library keeps an access control list: the pairs of a handle and an account allowed
  on it. \<open>FHE.allow\<close> and \<open>FHE.allowThis\<close> record a pair that persists. The handle returned
  by an operation (a trivial encryption included) is allowed to the calling contract until
  the end of the transaction only. Every operation applied to an existing handle, a cast
  such as \<open>FHE.asEuint64\<close> included, first checks that the calling contract is allowed on
  each operand and reverts otherwise. Each call of a run below is a transaction of its
  own, and the library is taken to be deployed and configured for the contract. So an
  operand produced earlier in the same call always passes the check, and an operand read
  from storage passes it exactly when a persisted pair for the contract exists.
\<close>

definition isAllowed :: "(handle \<times> address) set \<Rightarrow> handle \<Rightarrow> address \<Rightarrow> bool" where
  "isAllowed grants h a \<longleftrightarrow> (h, a) \<in> grants"

text \<open>\<open>FHE.asEuint64\<close> applied to the handle \<open>v\<close> by the contract \<open>caller\<close>.\<close>

definition asEuint64 :: "(handle \<times> address) set \<Rightarrow> address \<Rightarrow> euint32 \<Rightarrow> error + euint64" where
  "asEuint64 grants caller v =
     (if isAllowed grants (H32 v) caller then Inr (AsEuint64 v) else Inl ACLNotAllowed)"

section \<open>The contract of \<^verbatim>\<open>contracts/LogisticsRouteOptimizer.sol\<close>\<close>

subsection \<open>Storage\<close>

record DeliveryLocation =
  encryptedX :: euint32
  encryptedY :: euint32
  priority :: euint8
  isActive :: bool

record RouteRequest =
  requester :: address
  locationCount :: uint32
  maxTravelDistance :: euint32
  vehicleCapacity :: euint8
  processed :: bool
  optimizedRouteId :: uint32
  timestamp :: uint256

record OptimizedRoute =
  or_routeId :: uint32
  or_requester :: address
  totalDistance :: euint32
  estimatedTime :: euint8
  isConfidential :: bool
  createdAt :: uint256
  locationOrder :: "uint8 list"

text \<open>
  Solidity mappings are total: an unwritten slot reads as the zero value. The access
  control list of the FHE library (\<open>FHE.allow\<close>, \<open>FHE.allowThis\<close>) is kept with the state.
\<close>

record state =
  owner :: address
  routeCounter :: uint32
  routeRequests :: "uint32 \<Rightarrow> RouteRequest"
  routeLocations :: "uint32 \<Rightarrow> uint8 \<Rightarrow> DeliveryLocation"
  optimizedRoutes :: "uint32 \<Rightarrow> OptimizedRoute"
  userRoutes :: "address \<Rightarrow> uint32 list"
  acl :: "(handle \<times> address) set"

datatype event =
    RouteRequested uint32 address uint32
  | RouteOptimized uint32 address uint32
  | DeliveryCompleted uint32 uint8

definition zeroLocation :: DeliveryLocation where
  "zeroLocation = \<lparr>encryptedX = Uninit32, encryptedY = Uninit32, priority = Uninit8,
     isActive = False\<rparr>"

definition zeroRequest :: RouteRequest where
  "zeroRequest = \<lparr>requester = 0, locationCount = 0, maxTravelDistance = Uninit32,
     vehicleCapacity = Uninit8, processed = False, optimizedRouteId = 0, timestamp = 0\<rparr>"

definition zeroRoute :: OptimizedRoute where
  "zeroRoute = \<lparr>or_routeId = 0, or_requester = 0, totalDistance = Uninit32,
     estimatedTime = Uninit8, isConfidential = False, createdAt = 0, locationOrder = []\<rparr>"

definition constructor :: "env \<Rightarrow> state" where
  "constructor e = \<lparr>owner = sender e, routeCounter = 0,
     routeRequests = (\<lambda>_. zeroRequest), routeLocations = (\<lambda>_ _. zeroLocation),
     optimizedRoutes = (\<lambda>_. zeroRoute), userRoutes = (\<lambda>_. []), acl = {}\<rparr>"

definition allow :: "handle \<Rightarrow> address \<Rightarrow> state \<Rightarrow> state" where
  "allow h a s = s\<lparr>acl := insert (h, a) (acl s)\<rparr>"

definition allowThis :: "env \<Rightarrow> handle \<Rightarrow> state \<Rightarrow> state" where
  "allowThis e h s = allow h (self e) s"

subsection \<open>requestRouteOptimization\<close>

text \<open>
  One pass of the body of \<^verbatim>\<open>for (uint8 i = 0; i < xCoords.length; i++)\<close>: the location
  is stored under the key \<open>i\<close> and its three ciphertexts are granted to the contract and
  to the caller.
\<close>

definition storeLocation ::
  "env \<Rightarrow> uint32 \<Rightarrow> uint32 list \<Rightarrow> uint32 list \<Rightarrow> uint8 list \<Rightarrow> nat \<Rightarrow> state \<Rightarrow> state" where
  "storeLocation e rid xCoords yCoords priorities i s =
     (let encX = AsEuint32 (xCoords ! i);
          encY = AsEuint32 (yCoords ! i);
          encPriority = AsEuint8 (priorities ! i);
          s1 = s\<lparr>routeLocations := (routeLocations s)
                 (rid := (routeLocations s rid)
                    (of_nat i := \<lparr>encryptedX = encX, encryptedY = encY,
                       priority = encPriority, isActive = True\<rparr>))\<rparr>;
          s2 = allowThis e (H32 encX) s1;
          s3 = allowThis e (H32 encY) s2;
          s4 = allowThis e (H8 encPriority) s3;
          s5 = allow (H32 encX) (sender e) s4;
          s6 = allow (H32 encY) (sender e) s5
      in allow (H8 encPriority) (sender e) s6)"

text \<open>
  The loop. The counter is a \<open>uint8\<close>, held as a natural number below 256; \<open>i++\<close> is
  checked, so the step from 255 reverts. An index outside \<open>yCoords\<close> or \<open>priorities\<close>
  reverts as well (it cannot happen after the length checks of the entry point).
\<close>

function storeLocations ::
  "env \<Rightarrow> uint32 \<Rightarrow> uint32 list \<Rightarrow> uint32 list \<Rightarrow> uint8 list \<Rightarrow> nat \<Rightarrow> state
     \<Rightarrow> error + state" where
  "storeLocations e rid xCoords yCoords priorities i s =
     (if i < length xCoords then
        (if \<not> (i < length yCoords \<and> i < length priorities) then Inl Panic
         else if 255 \<le> i then Inl Panic
         else storeLocations e rid xCoords yCoords priorities (i + 1)
                (storeLocation e rid xCoords yCoords priorities i s))
      else Inr s)"
  by pat_completeness auto
termination
  by (relation "measure (\<lambda>(e, rid, xCoords, yCoords, priorities, i, s). length xCoords - i)")
     auto

declare storeLocations.simps [simp del]

definition requestRouteOptimization ::
  "env \<Rightarrow> uint32 list \<Rightarrow> uint32 list \<Rightarrow> uint8 list \<Rightarrow> uint32 \<Rightarrow> uint8 \<Rightarrow> state
     \<Rightarrow> error + (state \<times> event list \<times> uint32)" where
  "requestRouteOptimization e xCoords yCoords priorities maxDistance capacity s =
     (if length xCoords \<noteq> length yCoords then Inl CoordinateArraysMismatch
      else if length xCoords \<noteq> length priorities then Inl PriorityArrayMismatch
      else if \<not> 0 < length xCoords then Inl NoLocationsProvided
      else if routeCounter s = - 1 then Inl Panic
      else
        let rid = routeCounter s + 1;
            s1 = s\<lparr>routeCounter := rid\<rparr>;
            s2 = s1\<lparr>routeRequests := (routeRequests s1)
                   (rid := \<lparr>requester = sender e,
                      locationCount = of_nat (length xCoords),
                      maxTravelDistance = AsEuint32 maxDistance,
                      vehicleCapacity = AsEuint8 capacity,
                      processed = False,
                      optimizedRouteId = 0,
                      timestamp = block_timestamp e\<rparr>)\<rparr>
        in case storeLocations e rid xCoords yCoords priorities 0 s2 of
             Inl err \<Rightarrow> Inl err
           | Inr s3 \<Rightarrow>
               let s4 = allowThis e (H32 (maxTravelDistance (routeRequests s3 rid))) s3;
                   s5 = allowThis e (H8 (vehicleCapacity (routeRequests s4 rid))) s4;
                   s6 = allow (H32 (maxTravelDistance (routeRequests s5 rid))) (sender e) s5;
                   s7 = allow (H8 (vehicleCapacity (routeRequests s6 rid))) (sender e) s6;
                   s8 = s7\<lparr>userRoutes := (userRoutes s7)
                          (sender e := userRoutes s7 (sender e) @ [rid])\<rparr>
               in Inr (s8, [RouteRequested rid (sender e) (of_nat (length xCoords))], rid))"

subsection \<open>processRouteOptimization\<close>

text \<open>
  \<open>_calculateDistance\<close>: two subtractions and one addition on ciphertexts. The four
  operands read from storage were granted to the contract by \<open>FHE.allowThis\<close> when
  \<open>requestRouteOptimization\<close> stored them, so the library's check on them passes in every
  storage reached from the constructor (lemma \<open>stored_operands_allowed\<close> below) and is not
  written out here.
\<close>

definition calculateDistance :: "state \<Rightarrow> uint32 \<Rightarrow> uint8 \<Rightarrow> uint8 \<Rightarrow> euint32" where
  "calculateDistance s rid from to =
     (let loc1 = routeLocations s rid from;
          loc2 = routeLocations s rid to;
          deltaX = Sub32 (encryptedX loc2) (encryptedX loc1);
          deltaY = Sub32 (encryptedY loc2) (encryptedY loc1)
      in Add32 deltaX deltaY)"

text \<open>
  The loop of \<open>_calculateOptimalRoute\<close>,
  \<^verbatim>\<open>for (uint8 i = 0; i < request.locationCount - 1; i++)\<close>, with \<open>bound\<close> the value of
  \<open>locationCount - 1\<close>. Both \<open>i + 1\<close> and \<open>i++\<close> are checked \<open>uint8\<close> additions.
\<close>

function calculateLoop :: "state \<Rightarrow> uint32 \<Rightarrow> nat \<Rightarrow> nat \<Rightarrow> euint32 \<Rightarrow> error + euint32" where
  "calculateLoop s rid bound i totalDist =
     (if i < bound then
        (if 255 \<le> i then Inl Panic
         else calculateLoop s rid bound (i + 1)
                (Add32 totalDist (calculateDistance s rid (of_nat i) (of_nat (i + 1)))))
      else Inr totalDist)"
  by pat_completeness auto
termination
  by (relation "measure (\<lambda>(s, rid, bound, i, totalDist). bound - i)") auto

declare calculateLoop.simps [simp del]

text \<open>
  \<open>_calculateOptimalRoute\<close>. The subtraction \<open>locationCount - 1\<close> is checked: it reverts
  on a count of zero.
\<close>

definition calculateOptimalRoute :: "state \<Rightarrow> uint32 \<Rightarrow> error + euint32" where
  "calculateOptimalRoute s rid =
     (let request = routeRequests s rid in
      if locationCount request = 0 then Inl Panic
      else calculateLoop s rid (unat (locationCount request - 1)) 0 (AsEuint32 0))"

text \<open>
  \<open>_calculateDeliveryTime\<close>: the loading time is computed and dropped; the result is a
  trivial encryption of 100.
\<close>

definition calculateDeliveryTime :: "state \<Rightarrow> uint32 \<Rightarrow> euint32 \<Rightarrow> euint8" where
  "calculateDeliveryTime s rid totalDist =
     (let request = routeRequests s rid;
          loadingTime = Mul32 (AsEuint32 (locationCount request)) (AsEuint32 5)
      in AsEuint8 100)"

text \<open>\<open>_generateRouteOrder\<close>: a fresh zero array, filled by a loop with a \<open>uint8\<close> counter.\<close>

function orderLoop :: "nat \<Rightarrow> nat \<Rightarrow> uint8 list \<Rightarrow> error + uint8 list" where
  "orderLoop n i order =
     (if i < n then
        (if \<not> i < length order then Inl Panic
         else if 255 \<le> i then Inl Panic
         else orderLoop n (i + 1) (order[i := of_nat i]))
      else Inr order)"
  by pat_completeness auto
termination
  by (relation "measure (\<lambda>(n, i, order). n - i)") auto

declare orderLoop.simps [simp del]

definition generateRouteOrder :: "uint32 \<Rightarrow> error + uint8 list" where
  "generateRouteOrder n = orderLoop (unat n) 0 (replicate (unat n) 0)"

definition processRouteOptimization ::
  "env \<Rightarrow> uint32 \<Rightarrow> state \<Rightarrow> error + (state \<times> event list)" where
  "processRouteOptimization e rid s =
     (if sender e \<noteq> owner s then Inl NotAuthorized
      else if processed (routeRequests s rid) then Inl RouteAlreadyProcessed
      else if requester (routeRequests s rid) = 0 then Inl InvalidRoute
      else
        let request = routeRequests s rid in
        case calculateOptimalRoute s rid of
          Inl err \<Rightarrow> Inl err
        | Inr totalDist \<Rightarrow>
            let estTime = calculateDeliveryTime s rid totalDist in
            case generateRouteOrder (locationCount request) of
              Inl err \<Rightarrow> Inl err
            | Inr routeOrder \<Rightarrow>
                let s1 = s\<lparr>optimizedRoutes := (optimizedRoutes s)
                           (rid := \<lparr>or_routeId = rid,
                              or_requester = requester request,
                              totalDistance = totalDist,
                              estimatedTime = estTime,
                              isConfidential = True,
                              createdAt = block_timestamp e,
                              locationOrder = routeOrder\<rparr>)\<rparr>;
                    s2 = allowThis e (H32 totalDist) s1;
                    s3 = allowThis e (H8 estTime) s2;
                    s4 = allow (H32 totalDist) (requester request) s3;
                    s5 = allow (H8 estTime) (requester request) s4;
                    s6 = s5\<lparr>routeRequests := (routeRequests s5)
                           (rid := (routeRequests s5 rid)
                              \<lparr>processed := True, optimizedRouteId := rid\<rparr>)\<rparr>
                in Inr (s6, [RouteOptimized rid (requester request) 0]))"

subsection \<open>markDeliveryCompleted and the queries\<close>

definition markDeliveryCompleted ::
  "env \<Rightarrow> uint32 \<Rightarrow> uint8 \<Rightarrow> state \<Rightarrow> error + (state \<times> event list)" where
  "markDeliveryCompleted e rid locationIndex s =
     (if sender e \<noteq> requester (routeRequests s rid) then Inl NotYourRoute
      else if \<not> processed (routeRequests s rid) then Inl RouteNotProcessed
      else if \<not> ucast locationIndex < locationCount (routeRequests s rid)
        then Inl InvalidLocationIndex
      else if \<not> isActive (routeLocations s rid locationIndex)
        then Inl LocationAlreadyCompleted
      else Inr (s\<lparr>routeLocations := (routeLocations s)
                   (rid := (routeLocations s rid)
                      (locationIndex := (routeLocations s rid locationIndex)
                         \<lparr>isActive := False\<rparr>))\<rparr>,
                [DeliveryCompleted rid locationIndex]))"

definition getOptimizedRoute ::
  "env \<Rightarrow> uint32 \<Rightarrow> state \<Rightarrow> error + (handle \<times> handle \<times> uint8 list \<times> uint256)" where
  "getOptimizedRoute e rid s =
     (if sender e \<noteq> requester (routeRequests s rid) then Inl NotYourRoute
      else if \<not> processed (routeRequests s rid) then Inl RouteNotProcessed
      else let route = optimizedRoutes s rid
           in Inr (H32 (totalDistance route), H8 (estimatedTime route),
                   locationOrder route, createdAt route))"

definition getUserRoutes :: "address \<Rightarrow> state \<Rightarrow> uint32 list" where
  "getUserRoutes user s = userRoutes s user"

definition getRouteRequest :: "uint32 \<Rightarrow> state \<Rightarrow> address \<times> uint32 \<times> bool \<times> uint256" where
  "getRouteRequest rid s =
     (let request = routeRequests s rid
      in (requester request, locationCount request, processed request, timestamp request))"

definition getRouteDataForOwner ::
  "env \<Rightarrow> uint32 \<Rightarrow> state \<Rightarrow> error + (handle \<times> handle \<times> address \<times> uint256)" where
  "getRouteDataForOwner e rid s =
     (if sender e \<noteq> owner s then Inl NotAuthorized
      else if \<not> processed (routeRequests s rid) then Inl RouteNotProcessed
      else let route = optimizedRoutes s rid
           in Inr (H32 (totalDistance route), H8 (estimatedTime route),
                   or_requester route, createdAt route))"

section \<open>The contract of \<^verbatim>\<open>examples/logistics-optimizer/contracts/LogisticsRouteOptimizer.sol\<close>\<close>

subsection \<open>Storage\<close>

text \<open>
  The pausable variant. Its structs have the fields of the first contract and more:
  \<open>requestBlock\<close> in a request, \<open>totalDistanceSquared\<close> and \<open>finalized\<close> in a result. The
  private mapping \<open>gatewayCallbackToRouteId\<close> is never read or written and is left out.
  This contract never calls \<open>FHE.allow\<close> or \<open>FHE.allowThis\<close>; the access control list is
  kept in the state to say so, and \<open>processRouteOptimization\<close> consults it when it casts the
  stored distance bound.
\<close>

record RouteRequest_ex = RouteRequest +
  requestBlock :: uint256

record OptimizedRoute_ex = OptimizedRoute +
  totalDistanceSquared :: euint64
  finalized :: bool

record state_ex =
  owner_ex :: address
  routeCounter_ex :: uint32
  paused :: bool
  pausers :: "address \<Rightarrow> bool"
  routeRequests_ex :: "uint32 \<Rightarrow> RouteRequest_ex"
  routeLocations_ex :: "uint32 \<Rightarrow> uint8 \<Rightarrow> DeliveryLocation"
  optimizedRoutes_ex :: "uint32 \<Rightarrow> OptimizedRoute_ex"
  userRoutes_ex :: "address \<Rightarrow> uint32 list"
  acl_ex :: "(handle \<times> address) set"

datatype event_ex =
    RouteRequested_ex uint32 address uint32 uint256
  | RouteOptimized_ex uint32 address uint256
  | RouteFinalized uint32 uint32 uint8
  | DeliveryCompleted_ex uint32 uint8 uint256
  | PauserAdded address
  | PauserRemoved address
  | ContractPausedToggled bool
  | OwnershipTransferred address address

definition zeroRequest_ex :: RouteRequest_ex where
  "zeroRequest_ex = \<lparr>requester = 0, locationCount = 0, maxTravelDistance = Uninit32,
     vehicleCapacity = Uninit8, processed = False, optimizedRouteId = 0, timestamp = 0,
     requestBlock = 0\<rparr>"

definition zeroRoute_ex :: OptimizedRoute_ex where
  "zeroRoute_ex = \<lparr>or_routeId = 0, or_requester = 0, totalDistance = Uninit32,
     estimatedTime = Uninit8, isConfidential = False, createdAt = 0, locationOrder = [],
     totalDistanceSquared = Uninit64, finalized = False\<rparr>"

definition constructor_ex :: "env \<Rightarrow> state_ex \<times> event_ex list" where
  "constructor_ex e =
     (\<lparr>owner_ex = sender e, routeCounter_ex = 0, paused = False,
       pausers = (\<lambda>_. False)(sender e := True),
       routeRequests_ex = (\<lambda>_. zeroRequest_ex),
       routeLocations_ex = (\<lambda>_ _. zeroLocation),
       optimizedRoutes_ex = (\<lambda>_. zeroRoute_ex),
       userRoutes_ex = (\<lambda>_. []), acl_ex = {}\<rparr>,
      [PauserAdded (sender e)])"

subsection \<open>Main functions\<close>

text \<open>
  The modifiers run in the order they are written: \<open>onlyOwner\<close> or \<open>onlyRequester\<close> first,
  \<open>whenNotPaused\<close> second, the body last.
\<close>

definition requestRouteOptimization_ex ::
  "env \<Rightarrow> uint32 \<Rightarrow> uint32 \<Rightarrow> uint8 \<Rightarrow> uint32 \<Rightarrow> uint8 \<Rightarrow> state_ex
     \<Rightarrow> error + (state_ex \<times> event_ex list \<times> uint32)" where
  "requestRouteOptimization_ex e xCoord yCoord prio maxDistance capacity s =
     (if paused s then Inl ContractPaused
      else if routeCounter_ex s = - 1 then Inl Panic
      else
        let rid = routeCounter_ex s + 1;
            s1 = s\<lparr>routeCounter_ex := rid\<rparr>;
            encMaxDistance = AsEuint32 maxDistance;
            encVehicleCapacity = AsEuint8 capacity;
            s2 = s1\<lparr>routeRequests_ex := (routeRequests_ex s1)
                   (rid := \<lparr>requester = sender e,
                      locationCount = 3,
                      maxTravelDistance = encMaxDistance,
                      vehicleCapacity = encVehicleCapacity,
                      processed = False,
                      optimizedRouteId = 0,
                      timestamp = block_timestamp e,
                      requestBlock = block_number e\<rparr>)\<rparr>;
            s3 = s2\<lparr>userRoutes_ex := (userRoutes_ex s2)
                   (sender e := userRoutes_ex s2 (sender e) @ [rid])\<rparr>
        in Inr (s3, [RouteRequested_ex rid (sender e) 3 (block_timestamp e)], rid))"

text \<open>\<open>_calculateOptimalRoute\<close> of this contract returns the stored distance bound.\<close>

definition calculateOptimalRoute_ex :: "state_ex \<Rightarrow> uint32 \<Rightarrow> euint32" where
  "calculateOptimalRoute_ex s rid = maxTravelDistance (routeRequests_ex s rid)"

definition processRouteOptimization_ex ::
  "env \<Rightarrow> uint32 \<Rightarrow> state_ex \<Rightarrow> error + (state_ex \<times> event_ex list)" where
  "processRouteOptimization_ex e rid s =
     (if sender e \<noteq> owner_ex s then Inl NotAuthorized
      else if paused s then Inl ContractPaused
      else if processed (routeRequests_ex s rid) then Inl RouteAlreadyProcessed
      else if requester (routeRequests_ex s rid) = 0 then Inl InvalidRoute
      else
        let request = routeRequests_ex s rid;
            totalDist = calculateOptimalRoute_ex s rid
        in case asEuint64 (acl_ex s) (self e) totalDist of
             Inl err \<Rightarrow> Inl err
           | Inr lhs \<Rightarrow>
         (case asEuint64 (acl_ex s) (self e) totalDist of
             Inl err \<Rightarrow> Inl err
           | Inr rhs \<Rightarrow>
         let totalDistSquared = Mul64 lhs rhs;
             estTime = AsEuint8 30
         in case orderLoop (unat (locationCount request)) 0
                  (replicate (unat (locationCount request)) 0) of
             Inl err \<Rightarrow> Inl err
           | Inr routeOrder \<Rightarrow>
               let s1 = s\<lparr>optimizedRoutes_ex := (optimizedRoutes_ex s)
                          (rid := \<lparr>or_routeId = rid,
                             or_requester = requester request,
                             totalDistance = totalDist,
                             estimatedTime = estTime,
                             isConfidential = True,
                             createdAt = block_timestamp e,
                             locationOrder = routeOrder,
                             totalDistanceSquared = totalDistSquared,
                             finalized = False\<rparr>)\<rparr>;
                   s2 = s1\<lparr>routeRequests_ex := (routeRequests_ex s1)
                          (rid := (routeRequests_ex s1 rid)
                             \<lparr>processed := True, optimizedRouteId := rid\<rparr>)\<rparr>
               in Inr (s2, [RouteOptimized_ex rid (requester request) (block_timestamp e)])))"

definition finalizeRoute :: "env \<Rightarrow> uint32 \<Rightarrow> state_ex \<Rightarrow> error + (state_ex \<times> event_ex list)" where
  "finalizeRoute e rid s =
     (if sender e \<noteq> owner_ex s then Inl NotAuthorized
      else if paused s then Inl ContractPaused
      else if \<not> processed (routeRequests_ex s rid) then Inl RouteNotProcessed
      else Inr (s\<lparr>optimizedRoutes_ex := (optimizedRoutes_ex s)
                   (rid := (optimizedRoutes_ex s rid)\<lparr>finalized := True\<rparr>)\<rparr>,
                [RouteFinalized rid 0 0]))"

definition markDeliveryCompleted_ex ::
  "env \<Rightarrow> uint32 \<Rightarrow> uint8 \<Rightarrow> state_ex \<Rightarrow> error + (state_ex \<times> event_ex list)" where
  "markDeliveryCompleted_ex e rid locationIndex s =
     (if sender e \<noteq> requester (routeRequests_ex s rid) then Inl NotYourRoute
      else if paused s then Inl ContractPaused
      else if \<not> processed (routeRequests_ex s rid) then Inl RouteNotProcessed
      else if ucast locationIndex \<ge> locationCount (routeRequests_ex s rid)
        then Inl InvalidLocationIndex
      else if \<not> isActive (routeLocations_ex s rid locationIndex)
        then Inl LocationAlreadyCompleted
      else Inr (s\<lparr>routeLocations_ex := (routeLocations_ex s)
                   (rid := (routeLocations_ex s rid)
                      (locationIndex := (routeLocations_ex s rid locationIndex)
                         \<lparr>isActive := False\<rparr>))\<rparr>,
                [DeliveryCompleted_ex rid locationIndex (block_timestamp e)]))"

definition getUserRoutes_ex :: "address \<Rightarrow> state_ex \<Rightarrow> uint32 list" where
  "getUserRoutes_ex user s = userRoutes_ex s user"

definition getRouteRequest_ex ::
  "uint32 \<Rightarrow> state_ex \<Rightarrow> address \<times> uint32 \<times> bool \<times> uint256" where
  "getRouteRequest_ex rid s =
     (let request = routeRequests_ex s rid
      in (requester request, locationCount request, processed request, timestamp request))"

subsection \<open>Admin functions\<close>

definition addPauser :: "env \<Rightarrow> address \<Rightarrow> state_ex \<Rightarrow> error + (state_ex \<times> event_ex list)" where
  "addPauser e p s =
     (if sender e \<noteq> owner_ex s then Inl NotAuthorized
      else if p = 0 then Inl InvalidAddress
      else if pausers s p then Inl AlreadyPauser
      else Inr (s\<lparr>pausers := (pausers s)(p := True)\<rparr>, [PauserAdded p]))"

definition removePauser :: "env \<Rightarrow> address \<Rightarrow> state_ex \<Rightarrow> error + (state_ex \<times> event_ex list)" where
  "removePauser e p s =
     (if sender e \<noteq> owner_ex s then Inl NotAuthorized
      else if \<not> pausers s p then Inl NotPauser
      else Inr (s\<lparr>pausers := (pausers s)(p := False)\<rparr>, [PauserRemoved p]))"

definition togglePause :: "env \<Rightarrow> state_ex \<Rightarrow> error + (state_ex \<times> event_ex list)" where
  "togglePause e s =
     (if \<not> pausers s (sender e) \<and> sender e \<noteq> owner_ex s then Inl NotPauser
      else Inr (s\<lparr>paused := \<not> paused s\<rparr>, [ContractPausedToggled (\<not> paused s)]))"

definition transferOwnership ::
  "env \<Rightarrow> address \<Rightarrow> state_ex \<Rightarrow> error + (state_ex \<times> event_ex list)" where
  "transferOwnership e newOwner s =
     (if sender e \<noteq> owner_ex s then Inl NotAuthorized
      else if newOwner = 0 then Inl InvalidAddress
      else let previousOwner = owner_ex s
           in Inr (s\<lparr>owner_ex := newOwner\<rparr>, [OwnershipTransferred previousOwner newOwner]))"

section \<open>Transactions\<close>

text \<open>
  A transaction is an entry point with its arguments, run in an environment. A reverted
  transaction leaves the storage as it was and emits nothing.
\<close>

datatype call =
    RequestRouteOptimization "uint32 list" "uint32 list" "uint8 list" uint32 uint8
  | ProcessRouteOptimization uint32
  | MarkDeliveryCompleted uint32 uint8

fun exec :: "env \<Rightarrow> call \<Rightarrow> state \<Rightarrow> error + (state \<times> event list)" where
  "exec e (RequestRouteOptimization xs ys ps maxDistance capacity) s =
     (case requestRouteOptimization e xs ys ps maxDistance capacity s of
        Inl err \<Rightarrow> Inl err
      | Inr (s', evs, rid) \<Rightarrow> Inr (s', evs))"
| "exec e (ProcessRouteOptimization rid) s = processRouteOptimization e rid s"
| "exec e (MarkDeliveryCompleted rid i) s = markDeliveryCompleted e rid i s"

definition step :: "state \<Rightarrow> env \<times> call \<Rightarrow> state" where
  "step s ec = (case exec (fst ec) (snd ec) s of Inl err \<Rightarrow> s | Inr (s', evs) \<Rightarrow> s')"

definition run :: "state \<Rightarrow> (env \<times> call) list \<Rightarrow> state" where
  "run s tr = foldl step s tr"

text \<open>What an observer of the ledger sees of one transaction: the revert or the events.\<close>

definition outcome :: "state \<Rightarrow> env \<times> call \<Rightarrow> error + event list" where
  "outcome s ec = (case exec (fst ec) (snd ec) s of Inl err \<Rightarrow> Inl err | Inr (s', evs) \<Rightarrow> Inr evs)"

fun observe :: "state \<Rightarrow> (env \<times> call) list \<Rightarrow> (error + event list) list" where
  "observe s [] = []"
| "observe s (ec # tr) = outcome s ec # observe (step s ec) tr"

datatype call_ex =
    RequestRouteOptimization_ex uint32 uint32 uint8 uint32 uint8
  | ProcessRouteOptimization_ex uint32
  | FinalizeRoute uint32
  | MarkDeliveryCompleted_ex uint32 uint8
  | AddPauser address
  | RemovePauser address
  | TogglePause
  | TransferOwnership address

fun exec_ex :: "env \<Rightarrow> call_ex \<Rightarrow> state_ex \<Rightarrow> error + (state_ex \<times> event_ex list)" where
  "exec_ex e (RequestRouteOptimization_ex x y p maxDistance capacity) s =
     (case requestRouteOptimization_ex e x y p maxDistance capacity s of
        Inl err \<Rightarrow> Inl err
      | Inr (s', evs, rid) \<Rightarrow> Inr (s', evs))"
| "exec_ex e (ProcessRouteOptimization_ex rid) s = processRouteOptimization_ex e rid s"
| "exec_ex e (FinalizeRoute rid) s = finalizeRoute e rid s"
| "exec_ex e (MarkDeliveryCompleted_ex rid i) s = markDeliveryCompleted_ex e rid i s"
| "exec_ex e (AddPauser p) s = addPauser e p s"
| "exec_ex e (RemovePauser p) s = removePauser e p s"
| "exec_ex e TogglePause s = togglePause e s"
| "exec_ex e (TransferOwnership newOwner) s = transferOwnership e newOwner s"

definition step_ex :: "state_ex \<Rightarrow> env \<times> call_ex \<Rightarrow> state_ex" where
  "step_ex s ec = (case exec_ex (fst ec) (snd ec) s of Inl err \<Rightarrow> s | Inr (s', evs) \<Rightarrow> s')"

definition run_ex :: "state_ex \<Rightarrow> (env \<times> call_ex) list \<Rightarrow> state_ex" where
  "run_ex s tr = foldl step_ex s tr"

definition outcome_ex :: "state_ex \<Rightarrow> env \<times> call_ex \<Rightarrow> error + event_ex list" where
  "outcome_ex s ec =
     (case exec_ex (fst ec) (snd ec) s of Inl err \<Rightarrow> Inl err | Inr (s', evs) \<Rightarrow> Inr evs)"

fun observe_ex :: "state_ex \<Rightarrow> (env \<times> call_ex) list \<Rightarrow> (error + event_ex list) list" where
  "observe_ex s [] = []"
| "observe_ex s (ec # tr) = outcome_ex s ec # observe_ex (step_ex s ec) tr"

section \<open>Concrete transactions\<close>

text \<open>Three accounts, and small runs of both contracts used to instantiate the theorems.\<close>

definition deployer :: address where "deployer = 1"
definition alice :: address where "alice = 2"
definition mallory :: address where "mallory = 3"

definition env_of :: "address \<Rightarrow> env" where
  "env_of a = \<lparr>sender = a, block_timestamp = 1000, block_number = 10, self = 100\<rparr>"

definition fresh_ex :: state_ex where
  "fresh_ex = fst (constructor_ex (env_of deployer))"

definition requested_ex :: state_ex where
  "requested_ex = step_ex fresh_ex (env_of alice, RequestRouteOptimization_ex 100 150 1 1000 10)"

text \<open>
  The pausable contract records no grant, so the next storage is not reached by its own
  transactions: it is \<open>requested_ex\<close> with a grant on the stored distance bound recorded for
  the contract from outside.
\<close>

definition granted_ex :: state_ex where
  "granted_ex = requested_ex\<lparr>acl_ex := {(H32 (AsEuint32 1000), self (env_of deployer))}\<rparr>"

definition processed_ex :: state_ex where
  "processed_ex = step_ex granted_ex (env_of deployer, ProcessRouteOptimization_ex 1)"

definition paused_ex :: state_ex where
  "paused_ex = step_ex processed_ex (env_of deployer, TogglePause)"

definition fresh_core :: state where
  "fresh_core = constructor (env_of deployer)"

definition requested_core :: state where
  "requested_core = step fresh_core
     (env_of alice, RequestRouteOptimization [100, 200, 300] [150, 250, 350] [1, 2, 3] 1000 10)"

definition processed_core :: state where
  "processed_core = step requested_core (env_of deployer, ProcessRouteOptimization 1)"

definition pausedreq_ex :: state_ex where
  "pausedreq_ex = step_ex requested_ex (env_of deployer, TogglePause)"

definition transferred_ex :: state_ex where
  "transferred_ex = step_ex fresh_ex (env_of deployer, TransferOwnership alice)"



definition west_core :: state where
  "west_core = step fresh_core
     (env_of alice, RequestRouteOptimization [5, 3] [0, 0] [1, 1] 1000 10)"

definition west_processed :: state where
  "west_processed = step west_core (env_of deployer, ProcessRouteOptimization 1)"

section \<open>Closed forms of the loops and of the two writers\<close>

text \<open>
  Each loop of the first contract is a left fold over its index range, and each of its two
  state-changing entry points has a closed form for the storage it leaves. These are
  stated here and proved equal to the code below.
\<close>

definition storeFold ::
  "env \<Rightarrow> uint32 \<Rightarrow> uint32 list \<Rightarrow> uint32 list \<Rightarrow> uint8 list \<Rightarrow> nat \<Rightarrow> nat \<Rightarrow> state \<Rightarrow> state" where
  "storeFold e rid xs ys ps i n s = foldl (\<lambda>s j. storeLocation e rid xs ys ps j s) s [i..<n]"

definition locationGrants ::
  "env \<Rightarrow> uint32 list \<Rightarrow> uint32 list \<Rightarrow> uint8 list \<Rightarrow> nat \<Rightarrow> (handle \<times> address) set" where
  "locationGrants e xs ys ps j =
     {(H32 (AsEuint32 (xs ! j)), self e), (H32 (AsEuint32 (ys ! j)), self e),
      (H8 (AsEuint8 (ps ! j)), self e), (H32 (AsEuint32 (xs ! j)), sender e),
      (H32 (AsEuint32 (ys ! j)), sender e), (H8 (AsEuint8 (ps ! j)), sender e)}"

definition requestState ::
  "env \<Rightarrow> uint32 list \<Rightarrow> uint32 list \<Rightarrow> uint8 list \<Rightarrow> uint32 \<Rightarrow> uint8 \<Rightarrow> state \<Rightarrow> state" where
  "requestState e xs ys ps maxDistance capacity s =
     (let rid = routeCounter s + 1;
          s3 = storeFold e rid xs ys ps 0 (length xs)
                 (s\<lparr>routeCounter := rid,
                    routeRequests := (routeRequests s)
                      (rid := \<lparr>requester = sender e,
                         locationCount = of_nat (length xs),
                         maxTravelDistance = AsEuint32 maxDistance,
                         vehicleCapacity = AsEuint8 capacity,
                         processed = False,
                         optimizedRouteId = 0,
                         timestamp = block_timestamp e\<rparr>)\<rparr>)
      in s3\<lparr>acl := acl s3 \<union> {(H32 (AsEuint32 maxDistance), self e),
                 (H8 (AsEuint8 capacity), self e), (H32 (AsEuint32 maxDistance), sender e),
                 (H8 (AsEuint8 capacity), sender e)},
             userRoutes := (userRoutes s3)
               (sender e := userRoutes s3 (sender e) @ [rid])\<rparr>)"

definition distanceFold :: "state \<Rightarrow> uint32 \<Rightarrow> euint32 \<Rightarrow> nat \<Rightarrow> nat \<Rightarrow> euint32" where
  "distanceFold s rid acc i bound =
     foldl (\<lambda>acc j. Add32 acc (calculateDistance s rid (of_nat j) (of_nat (j + 1))))
       acc [i..<bound]"

definition processState :: "env \<Rightarrow> uint32 \<Rightarrow> state \<Rightarrow> state" where
  "processState e rid s =
     (let request = routeRequests s rid;
          totalDist = distanceFold s rid (AsEuint32 0) 0 (unat (locationCount request) - 1)
      in s\<lparr>optimizedRoutes := (optimizedRoutes s)
               (rid := \<lparr>or_routeId = rid,
                  or_requester = requester request,
                  totalDistance = totalDist,
                  estimatedTime = AsEuint8 100,
                  isConfidential = True,
                  createdAt = block_timestamp e,
                  locationOrder = map of_nat [0..<unat (locationCount request)]\<rparr>),
             acl := acl s \<union> {(H32 totalDist, self e), (H8 (AsEuint8 100), self e),
                 (H32 totalDist, requester request), (H8 (AsEuint8 100), requester request)},
             routeRequests := (routeRequests s)
               (rid := request\<lparr>processed := True, optimizedRouteId := rid\<rparr>)\<rparr>)"

section \<open>Invariants of the reachable states\<close>

text \<open>
  Facts that hold in every state reached from the constructor of the first contract: no
  request slot is written at identifier 0 or above the counter; an existing route has
  between 1 and 255 locations; a processed route carries the identity order. The last
  definition is the storage left by a successful \<open>markDeliveryCompleted\<close>.
\<close>

definition inv_fresh :: "state \<Rightarrow> bool" where
  "inv_fresh s \<longleftrightarrow> (\<forall>r. r = 0 \<or> routeCounter s < r \<longrightarrow> routeRequests s r = zeroRequest)"

definition inv_count :: "state \<Rightarrow> bool" where
  "inv_count s \<longleftrightarrow>
     (\<forall>r. requester (routeRequests s r) \<noteq> 0 \<longrightarrow>
        locationCount (routeRequests s r) \<noteq> 0
        \<and> unat (locationCount (routeRequests s r)) \<le> 255)"

definition inv_order :: "state \<Rightarrow> bool" where
  "inv_order s \<longleftrightarrow>
     (\<forall>r. processed (routeRequests s r) \<longrightarrow>
        locationOrder (optimizedRoutes s r) =
          map of_nat [0..<unat (locationCount (routeRequests s r))])"

definition inv :: "state \<Rightarrow> bool" where
  "inv s \<longleftrightarrow> inv_fresh s \<and> inv_count s \<and> inv_order s"

text \<open>
  The coordinates stored for the locations of a route are granted to the contract, whose
  address is \<open>a\<close>: these are the operands that \<open>_calculateDistance\<close> reads from storage.
\<close>

definition inv_acl :: "address \<Rightarrow> state \<Rightarrow> bool" where
  "inv_acl a s \<longleftrightarrow>
     (\<forall>r i. i < unat (locationCount (routeRequests s r)) \<longrightarrow>
        isAllowed (acl s) (H32 (encryptedX (routeLocations s r (of_nat i)))) a
        \<and> isAllowed (acl s) (H32 (encryptedY (routeLocations s r (of_nat i)))) a)"

definition markState :: "uint32 \<Rightarrow> uint8 \<Rightarrow> state \<Rightarrow> state" where
  "markState rid i s =
     s\<lparr>routeLocations := (routeLocations s)
         (rid := (routeLocations s rid)(i := (routeLocations s rid i)\<lparr>isActive := False\<rparr>))\<rparr>"

text \<open>
  The same for the pausable contract: the storage left by each of its successful entry
  points, and its invariants.
\<close>

definition requestState_ex :: "env \<Rightarrow> uint32 \<Rightarrow> uint8 \<Rightarrow> state_ex \<Rightarrow> state_ex" where
  "requestState_ex e maxDistance capacity s =
     s\<lparr>routeCounter_ex := routeCounter_ex s + 1,
       routeRequests_ex := (routeRequests_ex s)
         (routeCounter_ex s + 1 :=
            \<lparr>requester = sender e, locationCount = 3,
             maxTravelDistance = AsEuint32 maxDistance,
             vehicleCapacity = AsEuint8 capacity, processed = False,
             optimizedRouteId = 0, timestamp = block_timestamp e,
             requestBlock = block_number e\<rparr>),
       userRoutes_ex := (userRoutes_ex s)
         (sender e := userRoutes_ex s (sender e) @ [routeCounter_ex s + 1])\<rparr>"

definition processState_ex :: "env \<Rightarrow> uint32 \<Rightarrow> state_ex \<Rightarrow> state_ex" where
  "processState_ex e rid s =
     (let request = routeRequests_ex s rid
      in s\<lparr>optimizedRoutes_ex := (optimizedRoutes_ex s)
               (rid := \<lparr>or_routeId = rid,
                  or_requester = requester request,
                  totalDistance = maxTravelDistance request,
                  estimatedTime = AsEuint8 30,
                  isConfidential = True,
                  createdAt = block_timestamp e,
                  locationOrder = map of_nat [0..<unat (locationCount request)],
                  totalDistanceSquared =
                    Mul64 (AsEuint64 (maxTravelDistance request))
                      (AsEuint64 (maxTravelDistance request)),
                  finalized = False\<rparr>),
             routeRequests_ex := (routeRequests_ex s)
               (rid := request\<lparr>processed := True, optimizedRouteId := rid\<rparr>)\<rparr>)"

definition finalizeState :: "uint32 \<Rightarrow> state_ex \<Rightarrow> state_ex" where
  "finalizeState rid s =
     s\<lparr>optimizedRoutes_ex := (optimizedRoutes_ex s)
         (rid := (optimizedRoutes_ex s rid)\<lparr>finalized := True\<rparr>)\<rparr>"

definition markState_ex :: "uint32 \<Rightarrow> uint8 \<Rightarrow> state_ex \<Rightarrow> state_ex" where
  "markState_ex rid i s =
     s\<lparr>routeLocations_ex := (routeLocations_ex s)
         (rid := (routeLocations_ex s rid)
            (i := (routeLocations_ex s rid i)\<lparr>isActive := False\<rparr>))\<rparr>"

definition inv_fresh_ex :: "state_ex \<Rightarrow> bool" where
  "inv_fresh_ex s \<longleftrightarrow>
     (\<forall>r. r = 0 \<or> routeCounter_ex s < r \<longrightarrow> routeRequests_ex s r = zeroRequest_ex)"

definition inv_count_ex :: "state_ex \<Rightarrow> bool" where
  "inv_count_ex s \<longleftrightarrow>
     (\<forall>r. requester (routeRequests_ex s r) \<noteq> 0 \<longrightarrow> locationCount (routeRequests_ex s r) = 3)"

definition inv_order_ex :: "state_ex \<Rightarrow> bool" where
  "inv_order_ex s \<longleftrightarrow>
     (\<forall>r. processed (routeRequests_ex s r) \<longrightarrow>
        locationOrder (optimizedRoutes_ex s r) =
          map of_nat [0..<unat (locationCount (routeRequests_ex s r))])"

definition inv_ex :: "state_ex \<Rightarrow> bool" where
  "inv_ex s \<longleftrightarrow> inv_fresh_ex s \<and> inv_count_ex s \<and> inv_order_ex s"

section \<open>Identifiers handed out along a run\<close>

text \<open>The identifiers handed out along a run: one for each request that did not revert.\<close>

fun returned :: "state \<Rightarrow> env \<times> call \<Rightarrow> uint32 list" where
  "returned s (e, RequestRouteOptimization xs ys ps maxDistance capacity) =
     (case requestRouteOptimization e xs ys ps maxDistance capacity s of
        Inl err \<Rightarrow> []
      | Inr (s', evs, rid) \<Rightarrow> [rid])"
| "returned s (e, ProcessRouteOptimization rid) = []"
| "returned s (e, MarkDeliveryCompleted rid i) = []"

fun returnedIds :: "state \<Rightarrow> (env \<times> call) list \<Rightarrow> uint32 list" where
  "returnedIds s [] = []"
| "returnedIds s (ec # tr) = returned s ec @ returnedIds (step s ec) tr"

fun returned_ex :: "state_ex \<Rightarrow> env \<times> call_ex \<Rightarrow> uint32 list" where
  "returned_ex s (e, RequestRouteOptimization_ex x y p maxDistance capacity) =
     (case requestRouteOptimization_ex e x y p maxDistance capacity s of
        Inl err \<Rightarrow> []
      | Inr (s', evs, rid) \<Rightarrow> [rid])"
| "returned_ex s (e, c) = []"

fun returnedIds_ex :: "state_ex \<Rightarrow> (env \<times> call_ex) list \<Rightarrow> uint32 list" where
  "returnedIds_ex s [] = []"
| "returnedIds_ex s (ec # tr) = returned_ex s ec @ returnedIds_ex (step_ex s ec) tr"


section \<open>Pausers removed along a run\<close>

section \<open>The Manhattan distance of the specification\<close>

text \<open>
  The distance as the specification words it: the sum, over consecutive pairs of
  locations in submission order, of the absolute coordinate differences
  \<open>|x2 - x1| + |y2 - y1|\<close>, on the plaintexts.
\<close>

definition absDiff :: "uint32 \<Rightarrow> uint32 \<Rightarrow> nat" where
  "absDiff a b = (if unat a \<le> unat b then unat b - unat a else unat a - unat b)"

fun manhattan :: "uint32 list \<Rightarrow> uint32 list \<Rightarrow> nat" where
  "manhattan (x1 # x2 # xs) (y1 # y2 # ys) =
     absDiff x2 x1 + absDiff y2 y1 + manhattan (x2 # xs) (y2 # ys)"
| "manhattan xs ys = 0"

section \<open>Confidential inputs and the public part of the storage\<close>

text \<open>
  Two transactions differ only in confidential inputs when they are the same entry point,
  run in the same environment, with the same public arguments: the route identifier and
  the location index, and for a request the number of locations (the array lengths). The
  coordinates, priorities, distance bound and capacity are free.
\<close>

fun same_public :: "call \<Rightarrow> call \<Rightarrow> bool" where
  "same_public (RequestRouteOptimization xs ys ps m c) (RequestRouteOptimization xs' ys' ps' m' c')
     \<longleftrightarrow> length xs = length xs' \<and> length ys = length ys' \<and> length ps = length ps'"
| "same_public (ProcessRouteOptimization rid) (ProcessRouteOptimization rid') \<longleftrightarrow> rid = rid'"
| "same_public (MarkDeliveryCompleted rid i) (MarkDeliveryCompleted rid' i')
     \<longleftrightarrow> rid = rid' \<and> i = i'"
| "same_public c c' \<longleftrightarrow> False"

definition conf_eq :: "env \<times> call \<Rightarrow> env \<times> call \<Rightarrow> bool" where
  "conf_eq ec ec' \<longleftrightarrow> fst ec = fst ec' \<and> same_public (snd ec) (snd ec')"

text \<open>
  Two storages are equal on their public part when they agree on everything but the
  ciphertext handles and the grants recorded for them.
\<close>

definition low_eq :: "state \<Rightarrow> state \<Rightarrow> bool" where
  "low_eq s s' \<longleftrightarrow>
     owner s = owner s' \<and> routeCounter s = routeCounter s' \<and> userRoutes s = userRoutes s'
     \<and> (\<forall>r. requester (routeRequests s r) = requester (routeRequests s' r)
            \<and> locationCount (routeRequests s r) = locationCount (routeRequests s' r)
            \<and> processed (routeRequests s r) = processed (routeRequests s' r)
            \<and> optimizedRouteId (routeRequests s r) = optimizedRouteId (routeRequests s' r)
            \<and> timestamp (routeRequests s r) = timestamp (routeRequests s' r)
            \<and> or_routeId (optimizedRoutes s r) = or_routeId (optimizedRoutes s' r)
            \<and> or_requester (optimizedRoutes s r) = or_requester (optimizedRoutes s' r)
            \<and> isConfidential (optimizedRoutes s r) = isConfidential (optimizedRoutes s' r)
            \<and> createdAt (optimizedRoutes s r) = createdAt (optimizedRoutes s' r)
            \<and> locationOrder (optimizedRoutes s r) = locationOrder (optimizedRoutes s' r))
     \<and> (\<forall>r k. isActive (routeLocations s r k) = isActive (routeLocations s' r k))"

fun same_public_ex :: "call_ex \<Rightarrow> call_ex \<Rightarrow> bool" where
  "same_public_ex (RequestRouteOptimization_ex x y p m c)
     (RequestRouteOptimization_ex x' y' p' m' c') \<longleftrightarrow> True"
| "same_public_ex (RequestRouteOptimization_ex x y p m c) c' \<longleftrightarrow> False"
| "same_public_ex c c' \<longleftrightarrow> c = c'"

definition conf_eq_ex :: "env \<times> call_ex \<Rightarrow> env \<times> call_ex \<Rightarrow> bool" where
  "conf_eq_ex ec ec' \<longleftrightarrow> fst ec = fst ec' \<and> same_public_ex (snd ec) (snd ec')"

definition low_eq_ex :: "state_ex \<Rightarrow> state_ex \<Rightarrow> bool" where
  "low_eq_ex s s' \<longleftrightarrow>
     owner_ex s = owner_ex s' \<and> routeCounter_ex s = routeCounter_ex s'
     \<and> paused s = paused s' \<and> pausers s = pausers s' \<and> userRoutes_ex s = userRoutes_ex s'
     \<and> (\<forall>r. requester (routeRequests_ex s r) = requester (routeRequests_ex s' r)
            \<and> locationCount (routeRequests_ex s r) = locationCount (routeRequests_ex s' r)
            \<and> processed (routeRequests_ex s r) = processed (routeRequests_ex s' r)
            \<and> optimizedRouteId (routeRequests_ex s r) = optimizedRouteId (routeRequests_ex s' r)
            \<and> timestamp (routeRequests_ex s r) = timestamp (routeRequests_ex s' r)
            \<and> requestBlock (routeRequests_ex s r) = requestBlock (routeRequests_ex s' r)
            \<and> or_routeId (optimizedRoutes_ex s r) = or_routeId (optimizedRoutes_ex s' r)
            \<and> or_requester (optimizedRoutes_ex s r) = or_requester (optimizedRoutes_ex s' r)
            \<and> isConfidential (optimizedRoutes_ex s r) = isConfidential (optimizedRoutes_ex s' r)
            \<and> createdAt (optimizedRoutes_ex s r) = createdAt (optimizedRoutes_ex s' r)
            \<and> locationOrder (optimizedRoutes_ex s r) = locationOrder (optimizedRoutes_ex s' r)
            \<and> finalized (optimizedRoutes_ex s r) = finalized (optimizedRoutes_ex s' r))
     \<and> (\<forall>r k. isActive (routeLocations_ex s r k) = isActive (routeLocations_ex s' r k))"

section \<open>Properties\<close>

lemmas fixture_defs = deployer_def alice_def mallory_def env_of_def fresh_ex_def requested_ex_def
  granted_ex_def processed_ex_def paused_ex_def

lemma orderLoop_eq:
  "length order = n \<Longrightarrow>
   orderLoop n i order =
     (if i < n \<and> 255 < n then Inl Panic
      else Inr (take i order @ map of_nat [i..<n]))"
proof (induction n i order rule: orderLoop.induct)
  case (1 n i order)
  show ?case
  proof (cases "i < n")
    case False
    with "1.prems" show ?thesis by (subst orderLoop.simps) simp
  next
    case True
    note lt = this
    show ?thesis
    proof (cases "255 \<le> i")
      case True
      with lt "1.prems" show ?thesis by (subst orderLoop.simps) simp
    next
      case False
      with lt "1.prems" have ih: "orderLoop n (i + 1) (order[i := of_nat i]) =
        (if i + 1 < n \<and> 255 < n then Inl Panic
         else Inr (take (i + 1) (order[i := of_nat i]) @ map of_nat [i + 1..<n]))"
        using "1.IH" by simp
      have tk: "take (i + 1) (order[i := of_nat i]) = take i order @ [of_nat i]"
        using lt "1.prems" by (simp add: take_Suc_conv_app_nth)
      have up: "[i..<n] = i # [i + 1..<n]"
        using lt by (simp add: upt_conv_Cons)
      from lt False "1.prems" have "orderLoop n i order = orderLoop n (i + 1) (order[i := of_nat i])"
        by (subst orderLoop.simps) simp
      with ih tk up lt False show ?thesis by auto
    qed
  qed
qed

lemma generateRouteOrder_eq:
  "generateRouteOrder n =
     (if 255 < unat n then Inl Panic else Inr (map of_nat [0..<unat n]))"
  by (simp add: generateRouteOrder_def orderLoop_eq)

lemma upt_3: "[0..<3] = [0, 1, 2]"
  by (simp add: upt_rec)

lemma requested_ex_eq:
  "requested_ex = \<lparr>owner_ex = 1, routeCounter_ex = 1, paused = False,
     pausers = (\<lambda>_. False)(1 := True),
     routeRequests_ex = (\<lambda>_. zeroRequest_ex)
       (1 := \<lparr>requester = 2, locationCount = 3, maxTravelDistance = AsEuint32 1000,
          vehicleCapacity = AsEuint8 10, processed = False, optimizedRouteId = 0,
          timestamp = 1000, requestBlock = 10\<rparr>),
     routeLocations_ex = (\<lambda>_ _. zeroLocation),
     optimizedRoutes_ex = (\<lambda>_. zeroRoute_ex),
     userRoutes_ex = (\<lambda>_. [])(2 := [1]), acl_ex = {}\<rparr>"
  by (simp add: fixture_defs step_ex_def constructor_ex_def requestRouteOptimization_ex_def)

lemma processed_ex_eq:
  "processed_ex = \<lparr>owner_ex = 1, routeCounter_ex = 1, paused = False,
     pausers = (\<lambda>_. False)(1 := True),
     routeRequests_ex = (\<lambda>_. zeroRequest_ex)
       (1 := \<lparr>requester = 2, locationCount = 3, maxTravelDistance = AsEuint32 1000,
          vehicleCapacity = AsEuint8 10, processed = True, optimizedRouteId = 1,
          timestamp = 1000, requestBlock = 10\<rparr>),
     routeLocations_ex = (\<lambda>_ _. zeroLocation),
     optimizedRoutes_ex = (\<lambda>_. zeroRoute_ex)
       (1 := \<lparr>or_routeId = 1, or_requester = 2, totalDistance = AsEuint32 1000,
          estimatedTime = AsEuint8 30, isConfidential = True, createdAt = 1000,
          locationOrder = [0, 1, 2],
          totalDistanceSquared = Mul64 (AsEuint64 (AsEuint32 1000)) (AsEuint64 (AsEuint32 1000)),
          finalized = False\<rparr>),
     userRoutes_ex = (\<lambda>_. [])(2 := [1]), acl_ex = {(H32 (AsEuint32 1000), 100)}\<rparr>"
  unfolding processed_ex_def granted_ex_def requested_ex_eq
  by (simp add: deployer_def env_of_def step_ex_def processRouteOptimization_ex_def
      calculateOptimalRoute_ex_def asEuint64_def isAllowed_def orderLoop_eq upt_3 Let_def)

lemma paused_ex_eq: "paused_ex = processed_ex\<lparr>paused := True\<rparr>"
  unfolding paused_ex_def processed_ex_eq
  by (simp add: deployer_def env_of_def step_ex_def togglePause_def)


lemma paused_ex_facts:
  "paused paused_ex" "owner_ex paused_ex = deployer"
  "processed (routeRequests_ex paused_ex 1)"
  "requester (routeRequests_ex paused_ex 1) = alice"
  unfolding paused_ex_eq processed_ex_eq by (simp_all add: deployer_def alice_def)

lemma processed_ex_facts:
  "\<not> paused processed_ex" "owner_ex processed_ex = deployer"
  "processed (routeRequests_ex processed_ex 1)"
  "requester (routeRequests_ex processed_ex 1) = alice"
  unfolding processed_ex_eq by (simp_all add: deployer_def alice_def)

lemma sender_env_of: "sender (env_of a) = a"
  by (simp add: env_of_def)

lemma fixture_addresses:
  "deployer \<noteq> alice" "deployer \<noteq> mallory" "alice \<noteq> mallory"
  "alice \<noteq> deployer" "mallory \<noteq> deployer" "mallory \<noteq> alice"
  by (simp_all add: deployer_def alice_def mallory_def)

subsection \<open>The loops of the first contract\<close>

lemma storeLocation_fields:
  "owner (storeLocation e rid xs ys ps i s) = owner s"
  "routeCounter (storeLocation e rid xs ys ps i s) = routeCounter s"
  "routeRequests (storeLocation e rid xs ys ps i s) = routeRequests s"
  "optimizedRoutes (storeLocation e rid xs ys ps i s) = optimizedRoutes s"
  "userRoutes (storeLocation e rid xs ys ps i s) = userRoutes s"
  "routeLocations (storeLocation e rid xs ys ps i s) =
     (routeLocations s)(rid := (routeLocations s rid)
        (of_nat i := \<lparr>encryptedX = AsEuint32 (xs ! i), encryptedY = AsEuint32 (ys ! i),
           priority = AsEuint8 (ps ! i), isActive = True\<rparr>))"
  "acl (storeLocation e rid xs ys ps i s) =
     acl s \<union> {(H32 (AsEuint32 (xs ! i)), self e), (H32 (AsEuint32 (ys ! i)), self e),
               (H8 (AsEuint8 (ps ! i)), self e), (H32 (AsEuint32 (xs ! i)), sender e),
               (H32 (AsEuint32 (ys ! i)), sender e), (H8 (AsEuint8 (ps ! i)), sender e)}"
  by (auto simp: storeLocation_def allow_def allowThis_def Let_def)

lemma storeLocations_eq:
  "length ys = length xs \<Longrightarrow> length ps = length xs \<Longrightarrow>
   storeLocations e rid xs ys ps i s =
     (if i < length xs \<and> 255 < length xs then Inl Panic
      else Inr (storeFold e rid xs ys ps i (length xs) s))"
proof (induction e rid xs ys ps i s rule: storeLocations.induct)
  case (1 e rid xs ys ps i s)
  show ?case
  proof (cases "i < length xs")
    case False
    then show ?thesis by (subst storeLocations.simps) (simp add: storeFold_def)
  next
    case True
    note lt = this
    show ?thesis
    proof (cases "255 \<le> i")
      case True
      with lt "1.prems" show ?thesis by (subst storeLocations.simps) simp
    next
      case False
      with lt "1.prems" have ih:
        "storeLocations e rid xs ys ps (i + 1) (storeLocation e rid xs ys ps i s) =
          (if i + 1 < length xs \<and> 255 < length xs then Inl Panic
           else Inr (storeFold e rid xs ys ps (i + 1) (length xs) (storeLocation e rid xs ys ps i s)))"
        using "1.IH" by simp
      have up: "[i..<length xs] = i # [i + 1..<length xs]"
        using lt by (simp add: upt_conv_Cons)
      from lt False "1.prems" have "storeLocations e rid xs ys ps i s =
          storeLocations e rid xs ys ps (i + 1) (storeLocation e rid xs ys ps i s)"
        by (subst storeLocations.simps) simp
      with ih up lt False show ?thesis by (auto simp: storeFold_def)
    qed
  qed
qed

lemma storeFold_Suc:
  "i \<le> n \<Longrightarrow> storeFold e rid xs ys ps i (Suc n) s =
     storeLocation e rid xs ys ps n (storeFold e rid xs ys ps i n s)"
  by (simp add: storeFold_def)

lemma storeFold_triv: "n \<le> i \<Longrightarrow> storeFold e rid xs ys ps i n s = s"
  by (simp add: storeFold_def)

lemma storeFold_fields:
  "owner (storeFold e rid xs ys ps i n s) = owner s"
  "routeCounter (storeFold e rid xs ys ps i n s) = routeCounter s"
  "routeRequests (storeFold e rid xs ys ps i n s) = routeRequests s"
  "optimizedRoutes (storeFold e rid xs ys ps i n s) = optimizedRoutes s"
  "userRoutes (storeFold e rid xs ys ps i n s) = userRoutes s"
proof (induction n)
  case 0
  { case 1 show ?case by (simp add: storeFold_triv) }
  { case 2 show ?case by (simp add: storeFold_triv) }
  { case 3 show ?case by (simp add: storeFold_triv) }
  { case 4 show ?case by (simp add: storeFold_triv) }
  { case 5 show ?case by (simp add: storeFold_triv) }
next
  case (Suc n)
  { case 1 with Suc.IH(1) show ?case
      by (cases "i \<le> n") (simp_all add: storeFold_Suc storeFold_triv storeLocation_fields) }
  { case 2 with Suc.IH(2) show ?case
      by (cases "i \<le> n") (simp_all add: storeFold_Suc storeFold_triv storeLocation_fields) }
  { case 3 with Suc.IH(3) show ?case
      by (cases "i \<le> n") (simp_all add: storeFold_Suc storeFold_triv storeLocation_fields) }
  { case 4 with Suc.IH(4) show ?case
      by (cases "i \<le> n") (simp_all add: storeFold_Suc storeFold_triv storeLocation_fields) }
  { case 5 with Suc.IH(5) show ?case
      by (cases "i \<le> n") (simp_all add: storeFold_Suc storeFold_triv storeLocation_fields) }
qed

lemma storeFold_other_route:
  "r \<noteq> rid \<Longrightarrow> routeLocations (storeFold e rid xs ys ps i n s) r = routeLocations s r"
proof (induction n)
  case 0 then show ?case by (simp add: storeFold_triv)
next
  case (Suc n) then show ?case
    by (cases "i \<le> n") (simp_all add: storeFold_Suc storeFold_triv storeLocation_fields)
qed

lemma storeFold_acl_mono: "acl s \<subseteq> acl (storeFold e rid xs ys ps i n s)"
proof (induction n)
  case 0 then show ?case by (simp add: storeFold_triv)
next
  case (Suc n) then show ?case
    by (cases "i \<le> n") (auto simp add: storeFold_Suc storeFold_triv storeLocation_fields)
qed

lemma unat_of_nat_uint8: "j < 256 \<Longrightarrow> unat (of_nat j :: uint8) = j"
  by (simp add: unat_of_nat)

lemma of_nat_uint8_inj:
  "j < 256 \<Longrightarrow> k < 256 \<Longrightarrow> (of_nat j :: uint8) = of_nat k \<Longrightarrow> j = k"
  by (metis unat_of_nat_uint8)

lemma unat_of_nat_uint32: "j < 256 \<Longrightarrow> unat (of_nat j :: uint32) = j"
  by (simp add: unat_of_nat)

lemma storeFold_location:
  "i \<le> j \<Longrightarrow> j < n \<Longrightarrow> n \<le> 256 \<Longrightarrow>
   routeLocations (storeFold e rid xs ys ps i n s) rid (of_nat j) =
     \<lparr>encryptedX = AsEuint32 (xs ! j), encryptedY = AsEuint32 (ys ! j),
      priority = AsEuint8 (ps ! j), isActive = True\<rparr>"
proof (induction n)
  case 0 then show ?case by simp
next
  case (Suc n)
  then have in': "i \<le> n" by simp
  show ?case
  proof (cases "j = n")
    case True
    then show ?thesis by (simp add: storeFold_Suc [OF in'] storeLocation_fields)
  next
    case False
    with Suc.prems have jn: "j < n" "j < 256" "n < 256" by simp_all
    then have "(of_nat j :: uint8) \<noteq> of_nat n" using of_nat_uint8_inj by blast
    with Suc.IH Suc.prems jn show ?thesis
      by (simp add: storeFold_Suc [OF in'] storeLocation_fields)
  qed
qed

lemma storeFold_isActive:
  "isActive (routeLocations (storeFold e rid xs ys ps i n s) r k) \<longleftrightarrow>
     (r = rid \<and> (\<exists>j. i \<le> j \<and> j < n \<and> k = of_nat j)) \<or> isActive (routeLocations s r k)"
proof (induction n)
  case 0 then show ?case by (simp add: storeFold_triv)
next
  case (Suc n)
  show ?case
  proof (cases "i \<le> n")
    case False
    then have "\<And>j. \<not> (i \<le> j \<and> j < Suc n \<and> k = of_nat j)" by arith
    then have "(\<exists>j. i \<le> j \<and> j < Suc n \<and> k = of_nat j) = False" by blast
    with False show ?thesis by (simp only: storeFold_triv [of "Suc n" i] simp_thms)
  next
    case True
    have ex: "(\<exists>j. i \<le> j \<and> j < Suc n \<and> k = of_nat j) \<longleftrightarrow>
          k = of_nat n \<or> (\<exists>j. i \<le> j \<and> j < n \<and> k = of_nat j)"
      using True less_Suc_eq by auto
    show ?thesis
      unfolding ex using Suc.IH
      by (auto simp add: storeFold_Suc [OF True] storeLocation_fields)
  qed
qed

lemma storeFold_acl:
  "acl (storeFold e rid xs ys ps i n s) = acl s \<union> (\<Union>j\<in>{i..<n}. locationGrants e xs ys ps j)"
proof (induction n)
  case 0 then show ?case by (simp add: storeFold_triv)
next
  case (Suc n)
  show ?case
  proof (cases "i \<le> n")
    case False
    then show ?thesis by (simp add: storeFold_triv)
  next
    case True
    then have "{i..<Suc n} = insert n {i..<n}" by auto
    with Suc.IH show ?thesis
      by (simp add: storeFold_Suc [OF True] storeLocation_fields locationGrants_def
          Un_assoc insert_commute)
  qed
qed

lemma requestRouteOptimization_eq:
  "requestRouteOptimization e xs ys ps maxDistance capacity s =
     (if length xs \<noteq> length ys then Inl CoordinateArraysMismatch
      else if length xs \<noteq> length ps then Inl PriorityArrayMismatch
      else if length xs = 0 then Inl NoLocationsProvided
      else if routeCounter s = - 1 \<or> 255 < length xs then Inl Panic
      else Inr (requestState e xs ys ps maxDistance capacity s,
                [RouteRequested (routeCounter s + 1) (sender e) (of_nat (length xs))],
                routeCounter s + 1))"
proof -
  { assume len: "length ys = length xs" "length ps = length xs" "0 < length xs"
      and cnt: "routeCounter s \<noteq> - 1" and small: "\<not> 255 < length xs"
    have ?thesis
      using len cnt small
      apply (simp add: requestRouteOptimization_def Let_def storeLocations_eq
          storeFold_fields requestState_def allow_def allowThis_def)
      apply (rule state.equality)
      apply (simp_all add: storeFold_fields)
      apply auto
      done }
  moreover
  { assume "\<not> (length ys = length xs \<and> length ps = length xs \<and> 0 < length xs
        \<and> routeCounter s \<noteq> - 1 \<and> \<not> 255 < length xs)"
    then have ?thesis
      by (auto simp add: requestRouteOptimization_def Let_def storeLocations_eq) }
  ultimately show ?thesis by blast
qed

lemma calculateLoop_eq:
  "calculateLoop s rid bound i acc =
     (if i < bound \<and> 255 < bound then Inl Panic
      else Inr (distanceFold s rid acc i bound))"
proof (induction s rid bound i acc rule: calculateLoop.induct)
  case (1 s rid bound i acc)
  show ?case
  proof (cases "i < bound")
    case False
    then show ?thesis by (subst calculateLoop.simps) (simp add: distanceFold_def)
  next
    case True
    note lt = this
    show ?thesis
    proof (cases "255 \<le> i")
      case True
      with lt show ?thesis by (subst calculateLoop.simps) simp
    next
      case False
      with lt have ih:
        "calculateLoop s rid bound (i + 1)
           (Add32 acc (calculateDistance s rid (of_nat i) (of_nat (i + 1)))) =
          (if i + 1 < bound \<and> 255 < bound then Inl Panic
           else Inr (distanceFold s rid
                  (Add32 acc (calculateDistance s rid (of_nat i) (of_nat (i + 1))))
                  (i + 1) bound))"
        using "1.IH" by simp
      have up: "[i..<bound] = i # [i + 1..<bound]"
        using lt by (simp add: upt_conv_Cons)
      from lt False have "calculateLoop s rid bound i acc =
          calculateLoop s rid bound (i + 1)
            (Add32 acc (calculateDistance s rid (of_nat i) (of_nat (i + 1))))"
        by (subst calculateLoop.simps) simp
      with ih up lt False show ?thesis by (auto simp: distanceFold_def)
    qed
  qed
qed

lemma calculateOptimalRoute_eq:
  "calculateOptimalRoute s rid =
     (if locationCount (routeRequests s rid) = 0
         \<or> 256 < unat (locationCount (routeRequests s rid)) then Inl Panic
      else Inr (distanceFold s rid (AsEuint32 0) 0
                  (unat (locationCount (routeRequests s rid)) - 1)))"
  by (auto simp add: calculateOptimalRoute_def Let_def calculateLoop_eq unat_minus_one)

lemma processRouteOptimization_eq:
  "processRouteOptimization e rid s =
     (if sender e \<noteq> owner s then Inl NotAuthorized
      else if processed (routeRequests s rid) then Inl RouteAlreadyProcessed
      else if requester (routeRequests s rid) = 0 then Inl InvalidRoute
      else if locationCount (routeRequests s rid) = 0
          \<or> 255 < unat (locationCount (routeRequests s rid)) then Inl Panic
      else Inr (processState e rid s,
                [RouteOptimized rid (requester (routeRequests s rid)) 0]))"
proof -
  { assume ok: "sender e = owner s" "\<not> processed (routeRequests s rid)"
      "requester (routeRequests s rid) \<noteq> 0" "locationCount (routeRequests s rid) \<noteq> 0"
      "\<not> 255 < unat (locationCount (routeRequests s rid))"
    have ?thesis
      using ok
      apply (simp add: processRouteOptimization_def Let_def calculateOptimalRoute_eq
          generateRouteOrder_eq calculateDeliveryTime_def processState_def allow_def
          allowThis_def)
      apply (rule state.equality)
      apply (simp_all)
      apply auto
      done }
  moreover
  { assume "\<not> (sender e = owner s \<and> \<not> processed (routeRequests s rid)
        \<and> requester (routeRequests s rid) \<noteq> 0 \<and> locationCount (routeRequests s rid) \<noteq> 0
        \<and> \<not> 255 < unat (locationCount (routeRequests s rid)))"
    then have ?thesis
      by (auto simp add: processRouteOptimization_def Let_def calculateOptimalRoute_eq
          generateRouteOrder_eq split: sum.splits) }
  ultimately show ?thesis by blast
qed

lemma word_succ_neq0:
  assumes "(x :: 'a::len word) \<noteq> - 1"
  shows "x + 1 \<noteq> 0"
proof
  note a = assms
  assume b: "x + 1 = 0"
  from b have "x = 0 - 1" by (simp only: eq_diff_eq)
  with a show False by simp
qed

lemma unat_succ: "(x :: 'a::len word) \<noteq> - 1 \<Longrightarrow> unat (x + 1) = Suc (unat x)"
  using unatSuc [of x] word_succ_neq0 [of x] by (simp add: add.commute)

lemma word_lt_succ: "(x :: 'a::len word) \<noteq> - 1 \<Longrightarrow> x < x + 1"
  by (simp add: word_less_nat_alt unat_succ)

lemma word_gt_succ: "(x :: 'a::len word) \<noteq> - 1 \<Longrightarrow> x + 1 < r \<Longrightarrow> x < r"
  by (simp add: word_less_nat_alt unat_succ)

lemma unat_of_nat_len32: "n \<le> 255 \<Longrightarrow> unat (of_nat n :: uint32) = n"
  by (simp add: unat_of_nat)

lemma of_nat_len32_neq0: "0 < n \<Longrightarrow> n \<le> 255 \<Longrightarrow> (of_nat n :: uint32) \<noteq> 0"
  using unat_of_nat_len32 [of n] by auto

lemma requestState_fields:
  "owner (requestState e xs ys ps m c s) = owner s"
  "routeCounter (requestState e xs ys ps m c s) = routeCounter s + 1"
  "routeRequests (requestState e xs ys ps m c s) =
     (routeRequests s)(routeCounter s + 1 :=
        \<lparr>requester = sender e, locationCount = of_nat (length xs),
         maxTravelDistance = AsEuint32 m, vehicleCapacity = AsEuint8 c,
         processed = False, optimizedRouteId = 0, timestamp = block_timestamp e\<rparr>)"
  "optimizedRoutes (requestState e xs ys ps m c s) = optimizedRoutes s"
  "userRoutes (requestState e xs ys ps m c s) =
     (userRoutes s)(sender e := userRoutes s (sender e) @ [routeCounter s + 1])"
  by (simp_all add: requestState_def Let_def storeFold_fields)

lemma requestState_other_route:
  "r \<noteq> routeCounter s + 1 \<Longrightarrow>
   routeLocations (requestState e xs ys ps m c s) r = routeLocations s r"
  by (simp add: requestState_def Let_def storeFold_other_route)

lemma requestState_isActive:
  "isActive (routeLocations (requestState e xs ys ps m c s) r k) \<longleftrightarrow>
     (r = routeCounter s + 1 \<and> (\<exists>j. j < length xs \<and> k = of_nat j))
     \<or> isActive (routeLocations s r k)"
  by (simp add: requestState_def Let_def storeFold_isActive)

lemma requestState_acl:
  "acl (requestState e xs ys ps m c s) =
     acl s \<union> (\<Union>j\<in>{0..<length xs}. locationGrants e xs ys ps j)
       \<union> {(H32 (AsEuint32 m), self e), (H8 (AsEuint8 c), self e),
          (H32 (AsEuint32 m), sender e), (H8 (AsEuint8 c), sender e)}"
  by (simp add: requestState_def Let_def storeFold_acl)

lemma requestState_location:
  "j < length xs \<Longrightarrow> length xs \<le> 255 \<Longrightarrow>
   routeLocations (requestState e xs ys ps m c s) (routeCounter s + 1) (of_nat j) =
     \<lparr>encryptedX = AsEuint32 (xs ! j), encryptedY = AsEuint32 (ys ! j),
      priority = AsEuint8 (ps ! j), isActive = True\<rparr>"
  by (simp add: requestState_def Let_def storeFold_location)

lemma processState_fields:
  "owner (processState e rid s) = owner s"
  "routeCounter (processState e rid s) = routeCounter s"
  "routeLocations (processState e rid s) = routeLocations s"
  "userRoutes (processState e rid s) = userRoutes s"
  "routeRequests (processState e rid s) =
     (routeRequests s)(rid := (routeRequests s rid)\<lparr>processed := True, optimizedRouteId := rid\<rparr>)"
  "optimizedRoutes (processState e rid s) =
     (optimizedRoutes s)(rid :=
        \<lparr>or_routeId = rid, or_requester = requester (routeRequests s rid),
         totalDistance = distanceFold s rid (AsEuint32 0) 0
           (unat (locationCount (routeRequests s rid)) - 1),
         estimatedTime = AsEuint8 100, isConfidential = True,
         createdAt = block_timestamp e,
         locationOrder = map of_nat [0..<unat (locationCount (routeRequests s rid))]\<rparr>)"
  "acl (processState e rid s) =
     acl s \<union> {(H32 (distanceFold s rid (AsEuint32 0) 0
                   (unat (locationCount (routeRequests s rid)) - 1)), self e),
               (H8 (AsEuint8 100), self e),
               (H32 (distanceFold s rid (AsEuint32 0) 0
                   (unat (locationCount (routeRequests s rid)) - 1)),
                requester (routeRequests s rid)),
               (H8 (AsEuint8 100), requester (routeRequests s rid))}"
  by (simp_all add: processState_def Let_def)

text \<open>Every transaction either leaves the storage alone or leaves one of three closed forms.\<close>

lemma step_cases:
  obtains (revert) "step s ec = s"
  | (request) xs ys ps m c where
      "snd ec = RequestRouteOptimization xs ys ps m c"
      "step s ec = requestState (fst ec) xs ys ps m c s"
      "length ys = length xs" "length ps = length xs" "0 < length xs" "length xs \<le> 255"
      "routeCounter s \<noteq> - 1"
  | (process) rid where
      "snd ec = ProcessRouteOptimization rid"
      "step s ec = processState (fst ec) rid s"
      "sender (fst ec) = owner s" "\<not> processed (routeRequests s rid)"
      "requester (routeRequests s rid) \<noteq> 0" "locationCount (routeRequests s rid) \<noteq> 0"
      "unat (locationCount (routeRequests s rid)) \<le> 255"
  | (mark) rid i where
      "snd ec = MarkDeliveryCompleted rid i"
      "step s ec = markState rid i s"
      "sender (fst ec) = requester (routeRequests s rid)" "processed (routeRequests s rid)"
      "ucast i < locationCount (routeRequests s rid)" "isActive (routeLocations s rid i)"
proof (cases "snd ec")
  case (RequestRouteOptimization xs ys ps m c)
  show ?thesis
  proof (cases "length xs = length ys \<and> length xs = length ps \<and> length xs \<noteq> 0
      \<and> \<not> (routeCounter s = - 1 \<or> 255 < length xs)")
    case True
    with RequestRouteOptimization have "step s ec = requestState (fst ec) xs ys ps m c s"
      by (auto simp add: step_def requestRouteOptimization_eq)
    with True RequestRouteOptimization show ?thesis by (intro request [of xs ys ps m c]) auto
  next
    case False
    with RequestRouteOptimization have "step s ec = s"
      by (auto simp add: step_def requestRouteOptimization_eq)
    then show ?thesis by (rule revert)
  qed
next
  case (ProcessRouteOptimization rid)
  show ?thesis
  proof (cases "sender (fst ec) = owner s \<and> \<not> processed (routeRequests s rid)
      \<and> requester (routeRequests s rid) \<noteq> 0
      \<and> \<not> (locationCount (routeRequests s rid) = 0
           \<or> 255 < unat (locationCount (routeRequests s rid)))")
    case True
    with ProcessRouteOptimization have "step s ec = processState (fst ec) rid s"
      by (simp add: step_def processRouteOptimization_eq)
    with True ProcessRouteOptimization show ?thesis by (intro process [of rid]) auto
  next
    case False
    with ProcessRouteOptimization have "step s ec = s"
      by (auto simp add: step_def processRouteOptimization_eq)
    then show ?thesis by (rule revert)
  qed
next
  case (MarkDeliveryCompleted rid i)
  show ?thesis
  proof (cases "sender (fst ec) = requester (routeRequests s rid)
      \<and> processed (routeRequests s rid)
      \<and> ucast i < locationCount (routeRequests s rid) \<and> isActive (routeLocations s rid i)")
    case True
    with MarkDeliveryCompleted have "step s ec = markState rid i s"
      by (simp add: step_def markDeliveryCompleted_def markState_def)
    with True MarkDeliveryCompleted show ?thesis by (intro mark [of rid i]) auto
  next
    case False
    with MarkDeliveryCompleted have "step s ec = s"
      by (auto simp add: step_def markDeliveryCompleted_def)
    then show ?thesis by (rule revert)
  qed
qed

lemma markState_fields:
  "owner (markState rid i s) = owner s"
  "routeCounter (markState rid i s) = routeCounter s"
  "routeRequests (markState rid i s) = routeRequests s"
  "optimizedRoutes (markState rid i s) = optimizedRoutes s"
  "userRoutes (markState rid i s) = userRoutes s"
  "acl (markState rid i s) = acl s"
  by (simp_all add: markState_def)

lemma markState_isActive:
  "isActive (routeLocations (markState rid i s) r k) \<longleftrightarrow>
     \<not> (r = rid \<and> k = i) \<and> isActive (routeLocations s r k)"
  by (simp add: markState_def)

lemma inv_fresh_step: "inv_fresh s \<Longrightarrow> inv_fresh (step s ec)"
proof (cases rule: step_cases [of s ec])
  case revert
  assume "inv_fresh s" with revert show ?thesis by simp
next
  case (request xs ys ps m c)
  assume a: "inv_fresh s"
  have lt: "routeCounter s < routeCounter s + 1" and nz: "routeCounter s + 1 \<noteq> 0"
    using request(7) by (simp_all add: word_lt_succ word_succ_neq0)
  show ?thesis
    unfolding request(2) inv_fresh_def requestState_fields
  proof (intro allI impI)
    fix r assume r: "r = 0 \<or> routeCounter s + 1 < r"
    with lt nz have "r \<noteq> routeCounter s + 1" by auto
    moreover from r lt have "r = 0 \<or> routeCounter s < r" by auto
    ultimately show "((routeRequests s)(routeCounter s + 1 :=
        \<lparr>requester = sender (fst ec), locationCount = of_nat (length xs),
         maxTravelDistance = AsEuint32 m, vehicleCapacity = AsEuint8 c,
         processed = False, optimizedRouteId = 0, timestamp = block_timestamp (fst ec)\<rparr>)) r
        = zeroRequest"
      using a by (auto simp add: inv_fresh_def)
  qed
next
  case (process rid)
  assume a: "inv_fresh s"
  from process(5) have "routeRequests s rid \<noteq> zeroRequest" by (auto simp: zeroRequest_def)
  with a have "\<not> (rid = 0 \<or> routeCounter s < rid)" by (auto simp: inv_fresh_def)
  with a show ?thesis
    unfolding process(2) inv_fresh_def processState_fields by auto
next
  case (mark rid i)
  assume "inv_fresh s"
  then show ?thesis unfolding mark(2) inv_fresh_def markState_fields by simp
qed

lemma inv_count_step: "inv_count s \<Longrightarrow> inv_count (step s ec)"
proof (cases rule: step_cases [of s ec])
  case revert
  assume "inv_count s" with revert show ?thesis by simp
next
  case (request xs ys ps m c)
  assume a: "inv_count s"
  from request(5,6) have "(of_nat (length xs) :: uint32) \<noteq> 0"
    "unat (of_nat (length xs) :: uint32) \<le> 255"
    by (simp_all add: of_nat_len32_neq0 unat_of_nat_len32)
  with a show ?thesis
    unfolding request(2) inv_count_def requestState_fields by simp
next
  case (process rid)
  assume a: "inv_count s"
  then show ?thesis
    unfolding process(2) inv_count_def processState_fields by simp
next
  case (mark rid i)
  assume "inv_count s"
  then show ?thesis unfolding mark(2) inv_count_def markState_fields by simp
qed

lemma inv_order_step: "inv_order s \<Longrightarrow> inv_order (step s ec)"
proof (cases rule: step_cases [of s ec])
  case revert
  assume "inv_order s" with revert show ?thesis by simp
next
  case (request xs ys ps m c)
  assume a: "inv_order s"
  then show ?thesis
    unfolding request(2) inv_order_def requestState_fields by simp
next
  case (process rid)
  assume a: "inv_order s"
  then show ?thesis
    unfolding process(2) inv_order_def processState_fields by simp
next
  case (mark rid i)
  assume "inv_order s"
  then show ?thesis unfolding mark(2) inv_order_def markState_fields by simp
qed

lemma inv_step: "inv s \<Longrightarrow> inv (step s ec)"
  by (simp add: inv_def inv_fresh_step inv_count_step inv_order_step)

lemma inv_run: "inv s \<Longrightarrow> inv (run s tr)"
  unfolding run_def by (induction tr arbitrary: s) (simp_all add: inv_step)

lemma inv_constructor: "inv (constructor e)"
  by (simp add: inv_def inv_fresh_def inv_count_def inv_order_def constructor_def zeroRequest_def)

lemma run_append: "run s (tr @ tr') = run (run s tr) tr'"
  by (simp add: run_def)

lemma run_Cons: "run s (ec # tr) = run (step s ec) tr"
  by (simp add: run_def)

lemma run_Nil: "run s [] = s"
  by (simp add: run_def)

lemma requestRouteOptimization_ex_eq:
  "requestRouteOptimization_ex e x y p maxDistance capacity s =
     (if paused s then Inl ContractPaused
      else if routeCounter_ex s = - 1 then Inl Panic
      else Inr (requestState_ex e maxDistance capacity s,
                [RouteRequested_ex (routeCounter_ex s + 1) (sender e) 3 (block_timestamp e)],
                routeCounter_ex s + 1))"
  by (simp add: requestRouteOptimization_ex_def requestState_ex_def Let_def)

lemma processRouteOptimization_ex_eq:
  "processRouteOptimization_ex e rid s =
     (if sender e \<noteq> owner_ex s then Inl NotAuthorized
      else if paused s then Inl ContractPaused
      else if processed (routeRequests_ex s rid) then Inl RouteAlreadyProcessed
      else if requester (routeRequests_ex s rid) = 0 then Inl InvalidRoute
      else if \<not> isAllowed (acl_ex s) (H32 (maxTravelDistance (routeRequests_ex s rid))) (self e)
        then Inl ACLNotAllowed
      else if 255 < unat (locationCount (routeRequests_ex s rid)) then Inl Panic
      else Inr (processState_ex e rid s,
                [RouteOptimized_ex rid (requester (routeRequests_ex s rid)) (block_timestamp e)]))"
  by (simp add: processRouteOptimization_ex_def processState_ex_def Let_def orderLoop_eq
      calculateOptimalRoute_ex_def asEuint64_def)

lemma finalizeRoute_eq:
  "finalizeRoute e rid s =
     (if sender e \<noteq> owner_ex s then Inl NotAuthorized
      else if paused s then Inl ContractPaused
      else if \<not> processed (routeRequests_ex s rid) then Inl RouteNotProcessed
      else Inr (finalizeState rid s, [RouteFinalized rid 0 0]))"
  by (simp add: finalizeRoute_def finalizeState_def)

lemma markDeliveryCompleted_ex_eq:
  "markDeliveryCompleted_ex e rid i s =
     (if sender e \<noteq> requester (routeRequests_ex s rid) then Inl NotYourRoute
      else if paused s then Inl ContractPaused
      else if \<not> processed (routeRequests_ex s rid) then Inl RouteNotProcessed
      else if locationCount (routeRequests_ex s rid) \<le> ucast i then Inl InvalidLocationIndex
      else if \<not> isActive (routeLocations_ex s rid i) then Inl LocationAlreadyCompleted
      else Inr (markState_ex rid i s, [DeliveryCompleted_ex rid i (block_timestamp e)]))"
  by (simp add: markDeliveryCompleted_ex_def markState_ex_def)

lemma step_ex_cases:
  obtains (revert) "step_ex s ec = s"
  | (request) x y p m c where
      "snd ec = RequestRouteOptimization_ex x y p m c"
      "step_ex s ec = requestState_ex (fst ec) m c s"
      "\<not> paused s" "routeCounter_ex s \<noteq> - 1"
  | (process) rid where
      "snd ec = ProcessRouteOptimization_ex rid"
      "step_ex s ec = processState_ex (fst ec) rid s"
      "sender (fst ec) = owner_ex s" "\<not> paused s" "\<not> processed (routeRequests_ex s rid)"
      "requester (routeRequests_ex s rid) \<noteq> 0"
      "unat (locationCount (routeRequests_ex s rid)) \<le> 255"
      "isAllowed (acl_ex s) (H32 (maxTravelDistance (routeRequests_ex s rid))) (self (fst ec))"
  | (finalize) rid where
      "snd ec = FinalizeRoute rid"
      "step_ex s ec = finalizeState rid s"
      "sender (fst ec) = owner_ex s" "\<not> paused s" "processed (routeRequests_ex s rid)"
  | (mark) rid i where
      "snd ec = MarkDeliveryCompleted_ex rid i"
      "step_ex s ec = markState_ex rid i s"
      "sender (fst ec) = requester (routeRequests_ex s rid)" "\<not> paused s"
      "processed (routeRequests_ex s rid)"
      "ucast i < locationCount (routeRequests_ex s rid)" "isActive (routeLocations_ex s rid i)"
  | (addPauser) p where
      "snd ec = AddPauser p"
      "step_ex s ec = s\<lparr>pausers := (pausers s)(p := True)\<rparr>"
      "sender (fst ec) = owner_ex s" "p \<noteq> 0" "\<not> pausers s p"
  | (removePauser) p where
      "snd ec = RemovePauser p"
      "step_ex s ec = s\<lparr>pausers := (pausers s)(p := False)\<rparr>"
      "sender (fst ec) = owner_ex s" "pausers s p"
  | (togglePause)
      "snd ec = TogglePause"
      "step_ex s ec = s\<lparr>paused := \<not> paused s\<rparr>"
      "pausers s (sender (fst ec)) \<or> sender (fst ec) = owner_ex s"
  | (transferOwnership) newOwner where
      "snd ec = TransferOwnership newOwner"
      "step_ex s ec = s\<lparr>owner_ex := newOwner\<rparr>"
      "sender (fst ec) = owner_ex s" "newOwner \<noteq> 0"
proof (cases "snd ec")
  case (RequestRouteOptimization_ex x y p m c)
  show ?thesis
  proof (cases "\<not> paused s \<and> routeCounter_ex s \<noteq> - 1")
    case True
    with RequestRouteOptimization_ex have "step_ex s ec = requestState_ex (fst ec) m c s"
      by (simp add: step_ex_def requestRouteOptimization_ex_eq)
    with True RequestRouteOptimization_ex show ?thesis by (intro request [of x y p m c]) auto
  next
    case False
    with RequestRouteOptimization_ex have "step_ex s ec = s"
      by (auto simp add: step_ex_def requestRouteOptimization_ex_eq)
    then show ?thesis by (rule revert)
  qed
next
  case (ProcessRouteOptimization_ex rid)
  show ?thesis
  proof (cases "sender (fst ec) = owner_ex s \<and> \<not> paused s
      \<and> \<not> processed (routeRequests_ex s rid) \<and> requester (routeRequests_ex s rid) \<noteq> 0
      \<and> \<not> 255 < unat (locationCount (routeRequests_ex s rid))
      \<and> isAllowed (acl_ex s) (H32 (maxTravelDistance (routeRequests_ex s rid))) (self (fst ec))")
    case True
    with ProcessRouteOptimization_ex have "step_ex s ec = processState_ex (fst ec) rid s"
      by (simp add: step_ex_def processRouteOptimization_ex_eq)
    with True ProcessRouteOptimization_ex show ?thesis by (intro process [of rid]) auto
  next
    case False
    with ProcessRouteOptimization_ex have "step_ex s ec = s"
      by (auto simp add: step_ex_def processRouteOptimization_ex_eq)
    then show ?thesis by (rule revert)
  qed
next
  case (FinalizeRoute rid)
  show ?thesis
  proof (cases "sender (fst ec) = owner_ex s \<and> \<not> paused s
      \<and> processed (routeRequests_ex s rid)")
    case True
    with FinalizeRoute have "step_ex s ec = finalizeState rid s"
      by (simp add: step_ex_def finalizeRoute_eq)
    with True FinalizeRoute show ?thesis by (intro finalize [of rid]) auto
  next
    case False
    with FinalizeRoute have "step_ex s ec = s"
      by (auto simp add: step_ex_def finalizeRoute_eq)
    then show ?thesis by (rule revert)
  qed
next
  case (MarkDeliveryCompleted_ex rid i)
  show ?thesis
  proof (cases "sender (fst ec) = requester (routeRequests_ex s rid) \<and> \<not> paused s
      \<and> processed (routeRequests_ex s rid)
      \<and> \<not> locationCount (routeRequests_ex s rid) \<le> ucast i
      \<and> isActive (routeLocations_ex s rid i)")
    case True
    with MarkDeliveryCompleted_ex have "step_ex s ec = markState_ex rid i s"
      by (simp add: step_ex_def markDeliveryCompleted_ex_eq)
    with True MarkDeliveryCompleted_ex show ?thesis by (intro mark [of rid i]) auto
  next
    case False
    with MarkDeliveryCompleted_ex have "step_ex s ec = s"
      by (auto simp add: step_ex_def markDeliveryCompleted_ex_eq)
    then show ?thesis by (rule revert)
  qed
next
  case (AddPauser p)
  show ?thesis
  proof (cases "sender (fst ec) = owner_ex s \<and> p \<noteq> 0 \<and> \<not> pausers s p")
    case True
    with AddPauser have "step_ex s ec = s\<lparr>pausers := (pausers s)(p := True)\<rparr>"
      by (simp add: step_ex_def addPauser_def)
    with True AddPauser show ?thesis by (intro addPauser [of p]) auto
  next
    case False
    with AddPauser have "step_ex s ec = s"
      by (auto simp add: step_ex_def addPauser_def)
    then show ?thesis by (rule revert)
  qed
next
  case (RemovePauser p)
  show ?thesis
  proof (cases "sender (fst ec) = owner_ex s \<and> pausers s p")
    case True
    with RemovePauser have "step_ex s ec = s\<lparr>pausers := (pausers s)(p := False)\<rparr>"
      by (simp add: step_ex_def removePauser_def)
    with True RemovePauser show ?thesis by (intro removePauser [of p]) auto
  next
    case False
    with RemovePauser have "step_ex s ec = s"
      by (auto simp add: step_ex_def removePauser_def)
    then show ?thesis by (rule revert)
  qed
next
  case TogglePause
  show ?thesis
  proof (cases "pausers s (sender (fst ec)) \<or> sender (fst ec) = owner_ex s")
    case True
    with TogglePause have "step_ex s ec = s\<lparr>paused := \<not> paused s\<rparr>"
      by (auto simp add: step_ex_def togglePause_def)
    with True TogglePause show ?thesis by (intro togglePause) auto
  next
    case False
    with TogglePause have "step_ex s ec = s"
      by (auto simp add: step_ex_def togglePause_def)
    then show ?thesis by (rule revert)
  qed
next
  case (TransferOwnership newOwner)
  show ?thesis
  proof (cases "sender (fst ec) = owner_ex s \<and> newOwner \<noteq> 0")
    case True
    with TransferOwnership have "step_ex s ec = s\<lparr>owner_ex := newOwner\<rparr>"
      by (simp add: step_ex_def transferOwnership_def)
    with True TransferOwnership show ?thesis by (intro transferOwnership [of newOwner]) auto
  next
    case False
    with TransferOwnership have "step_ex s ec = s"
      by (auto simp add: step_ex_def transferOwnership_def)
    then show ?thesis by (rule revert)
  qed
qed

lemma requestState_ex_fields:
  "owner_ex (requestState_ex e m c s) = owner_ex s"
  "paused (requestState_ex e m c s) = paused s"
  "pausers (requestState_ex e m c s) = pausers s"
  "routeCounter_ex (requestState_ex e m c s) = routeCounter_ex s + 1"
  "routeRequests_ex (requestState_ex e m c s) =
     (routeRequests_ex s)(routeCounter_ex s + 1 :=
        \<lparr>requester = sender e, locationCount = 3,
         maxTravelDistance = AsEuint32 m, vehicleCapacity = AsEuint8 c, processed = False,
         optimizedRouteId = 0, timestamp = block_timestamp e,
         requestBlock = block_number e\<rparr>)"
  "routeLocations_ex (requestState_ex e m c s) = routeLocations_ex s"
  "optimizedRoutes_ex (requestState_ex e m c s) = optimizedRoutes_ex s"
  "userRoutes_ex (requestState_ex e m c s) =
     (userRoutes_ex s)(sender e := userRoutes_ex s (sender e) @ [routeCounter_ex s + 1])"
  "acl_ex (requestState_ex e m c s) = acl_ex s"
  by (simp_all add: requestState_ex_def)

lemma processState_ex_fields:
  "owner_ex (processState_ex e rid s) = owner_ex s"
  "paused (processState_ex e rid s) = paused s"
  "pausers (processState_ex e rid s) = pausers s"
  "routeCounter_ex (processState_ex e rid s) = routeCounter_ex s"
  "routeRequests_ex (processState_ex e rid s) =
     (routeRequests_ex s)(rid := (routeRequests_ex s rid)
        \<lparr>processed := True, optimizedRouteId := rid\<rparr>)"
  "routeLocations_ex (processState_ex e rid s) = routeLocations_ex s"
  "optimizedRoutes_ex (processState_ex e rid s) =
     (optimizedRoutes_ex s)(rid :=
        \<lparr>or_routeId = rid, or_requester = requester (routeRequests_ex s rid),
         totalDistance = maxTravelDistance (routeRequests_ex s rid),
         estimatedTime = AsEuint8 30, isConfidential = True,
         createdAt = block_timestamp e,
         locationOrder = map of_nat [0..<unat (locationCount (routeRequests_ex s rid))],
         totalDistanceSquared =
           Mul64 (AsEuint64 (maxTravelDistance (routeRequests_ex s rid)))
             (AsEuint64 (maxTravelDistance (routeRequests_ex s rid))),
         finalized = False\<rparr>)"
  "userRoutes_ex (processState_ex e rid s) = userRoutes_ex s"
  "acl_ex (processState_ex e rid s) = acl_ex s"
  by (simp_all add: processState_ex_def Let_def)

lemma finalizeState_fields:
  "owner_ex (finalizeState rid s) = owner_ex s"
  "paused (finalizeState rid s) = paused s"
  "pausers (finalizeState rid s) = pausers s"
  "routeCounter_ex (finalizeState rid s) = routeCounter_ex s"
  "routeRequests_ex (finalizeState rid s) = routeRequests_ex s"
  "routeLocations_ex (finalizeState rid s) = routeLocations_ex s"
  "optimizedRoutes_ex (finalizeState rid s) =
     (optimizedRoutes_ex s)(rid := (optimizedRoutes_ex s rid)\<lparr>finalized := True\<rparr>)"
  "userRoutes_ex (finalizeState rid s) = userRoutes_ex s"
  "acl_ex (finalizeState rid s) = acl_ex s"
  by (simp_all add: finalizeState_def)

lemma markState_ex_fields:
  "owner_ex (markState_ex rid i s) = owner_ex s"
  "paused (markState_ex rid i s) = paused s"
  "pausers (markState_ex rid i s) = pausers s"
  "routeCounter_ex (markState_ex rid i s) = routeCounter_ex s"
  "routeRequests_ex (markState_ex rid i s) = routeRequests_ex s"
  "optimizedRoutes_ex (markState_ex rid i s) = optimizedRoutes_ex s"
  "userRoutes_ex (markState_ex rid i s) = userRoutes_ex s"
  "acl_ex (markState_ex rid i s) = acl_ex s"
  by (simp_all add: markState_ex_def)

lemma markState_ex_isActive:
  "isActive (routeLocations_ex (markState_ex rid i s) r k) \<longleftrightarrow>
     \<not> (r = rid \<and> k = i) \<and> isActive (routeLocations_ex s r k)"
  by (simp add: markState_ex_def)

lemma inv_fresh_ex_step: "inv_fresh_ex s \<Longrightarrow> inv_fresh_ex (step_ex s ec)"
proof (cases rule: step_ex_cases [of s ec])
  case (request x y p m c)
  assume a: "inv_fresh_ex s"
  have lt: "routeCounter_ex s < routeCounter_ex s + 1" and nz: "routeCounter_ex s + 1 \<noteq> 0"
    using request(4) by (simp_all add: word_lt_succ word_succ_neq0)
  show ?thesis
    unfolding request(2) inv_fresh_ex_def requestState_ex_fields
  proof (intro allI impI)
    fix r assume r: "r = 0 \<or> routeCounter_ex s + 1 < r"
    with lt nz have "r \<noteq> routeCounter_ex s + 1" by auto
    moreover from r lt have "r = 0 \<or> routeCounter_ex s < r" by auto
    ultimately show "((routeRequests_ex s)(routeCounter_ex s + 1 :=
        \<lparr>requester = sender (fst ec), locationCount = 3,
         maxTravelDistance = AsEuint32 m, vehicleCapacity = AsEuint8 c, processed = False,
         optimizedRouteId = 0, timestamp = block_timestamp (fst ec),
         requestBlock = block_number (fst ec)\<rparr>)) r = zeroRequest_ex"
      using a by (auto simp add: inv_fresh_ex_def)
  qed
next
  case (process rid)
  assume a: "inv_fresh_ex s"
  from process(6) have "routeRequests_ex s rid \<noteq> zeroRequest_ex"
    by (auto simp: zeroRequest_ex_def)
  with a have "\<not> (rid = 0 \<or> routeCounter_ex s < rid)" by (auto simp: inv_fresh_ex_def)
  with a show ?thesis
    unfolding process(2) inv_fresh_ex_def processState_ex_fields by auto
qed (simp_all add: inv_fresh_ex_def finalizeState_fields markState_ex_fields)

lemma inv_count_ex_step: "inv_count_ex s \<Longrightarrow> inv_count_ex (step_ex s ec)"
  by (cases rule: step_ex_cases [of s ec])
     (simp_all add: inv_count_ex_def requestState_ex_fields processState_ex_fields
        finalizeState_fields markState_ex_fields)

lemma inv_order_ex_step: "inv_order_ex s \<Longrightarrow> inv_order_ex (step_ex s ec)"
  by (cases rule: step_ex_cases [of s ec])
     (simp_all add: inv_order_ex_def requestState_ex_fields processState_ex_fields
        finalizeState_fields markState_ex_fields)

lemma inv_ex_step: "inv_ex s \<Longrightarrow> inv_ex (step_ex s ec)"
  by (simp add: inv_ex_def inv_fresh_ex_step inv_count_ex_step inv_order_ex_step)

lemma inv_ex_run: "inv_ex s \<Longrightarrow> inv_ex (run_ex s tr)"
  unfolding run_ex_def by (induction tr arbitrary: s) (simp_all add: inv_ex_step)

lemma inv_ex_constructor: "inv_ex (fst (constructor_ex e))"
  by (simp add: inv_ex_def inv_fresh_ex_def inv_count_ex_def inv_order_ex_def
      constructor_ex_def zeroRequest_ex_def)

lemma run_ex_append: "run_ex s (tr @ tr') = run_ex (run_ex s tr) tr'"
  by (simp add: run_ex_def)

lemma run_ex_Cons: "run_ex s (ec # tr) = run_ex (step_ex s ec) tr"
  by (simp add: run_ex_def)

lemma run_ex_Nil: "run_ex s [] = s"
  by (simp add: run_ex_def)

subsection \<open>The concrete runs\<close>

lemma fresh_core_fields:
  "owner fresh_core = deployer" "routeCounter fresh_core = 0"
  "routeRequests fresh_core = (\<lambda>_. zeroRequest)"
  "optimizedRoutes fresh_core = (\<lambda>_. zeroRoute)"
  "routeLocations fresh_core = (\<lambda>_ _. zeroLocation)"
  "userRoutes fresh_core = (\<lambda>_. [])" "acl fresh_core = {}"
  by (simp_all add: fresh_core_def constructor_def sender_env_of)

lemma requested_core_eq:
  "requested_core =
     requestState (env_of alice) [100, 200, 300] [150, 250, 350] [1, 2, 3] 1000 10 fresh_core"
  by (simp add: requested_core_def step_def requestRouteOptimization_eq fresh_core_fields)

lemma requested_core_fields:
  "owner requested_core = deployer" "routeCounter requested_core = 1"
  "requester (routeRequests requested_core 1) = alice"
  "locationCount (routeRequests requested_core 1) = 3"
  "\<not> processed (routeRequests requested_core 1)"
  by (simp_all add: requested_core_eq requestState_fields fresh_core_fields sender_env_of)

lemma processed_core_eq:
  "processed_core = processState (env_of deployer) 1 requested_core"
  by (simp add: processed_core_def step_def processRouteOptimization_eq requested_core_fields
      sender_env_of alice_def)

lemma process_requested_core:
  "processRouteOptimization (env_of deployer) 1 requested_core =
     Inr (processed_core, [RouteOptimized 1 alice 0])"
  by (simp add: processed_core_eq processRouteOptimization_eq requested_core_fields
      sender_env_of alice_def)

lemma granted_ex_eq:
  "granted_ex = \<lparr>owner_ex = 1, routeCounter_ex = 1, paused = False,
     pausers = (\<lambda>_. False)(1 := True),
     routeRequests_ex = (\<lambda>_. zeroRequest_ex)
       (1 := \<lparr>requester = 2, locationCount = 3, maxTravelDistance = AsEuint32 1000,
          vehicleCapacity = AsEuint8 10, processed = False, optimizedRouteId = 0,
          timestamp = 1000, requestBlock = 10\<rparr>),
     routeLocations_ex = (\<lambda>_ _. zeroLocation),
     optimizedRoutes_ex = (\<lambda>_. zeroRoute_ex),
     userRoutes_ex = (\<lambda>_. [])(2 := [1]), acl_ex = {(H32 (AsEuint32 1000), 100)}\<rparr>"
  unfolding granted_ex_def requested_ex_eq by (simp add: env_of_def)

lemma process_granted_ex:
  "processRouteOptimization_ex (env_of deployer) 1 granted_ex =
     Inr (processed_ex, [RouteOptimized_ex 1 alice 1000])"
  unfolding processed_ex_def
  by (simp add: step_ex_def processRouteOptimization_ex_eq granted_ex_eq isAllowed_def
      sender_env_of deployer_def alice_def env_of_def)

lemma process_requested_ex:
  "processRouteOptimization_ex (env_of deployer) 1 requested_ex = Inl ACLNotAllowed"
  by (simp add: processRouteOptimization_ex_eq requested_ex_eq isAllowed_def
      sender_env_of deployer_def env_of_def)

lemma granted_ex_facts:
  "\<not> paused granted_ex" "owner_ex granted_ex = deployer"
  "\<not> processed (routeRequests_ex granted_ex 1)"
  "requester (routeRequests_ex granted_ex 1) = alice"
  unfolding granted_ex_eq by (simp_all add: deployer_def alice_def)

lemma run_fixture_core:
  "run (constructor (env_of deployer))
     [(env_of alice, RequestRouteOptimization [100, 200, 300] [150, 250, 350] [1, 2, 3] 1000 10),
      (env_of deployer, ProcessRouteOptimization 1)] = processed_core"
  by (simp add: run_def processed_core_def requested_core_def fresh_core_def)

lemma run_fixture_ex:
  "run_ex (fst (constructor_ex (env_of deployer)))
     [(env_of alice, RequestRouteOptimization_ex 100 150 1 1000 10),
      (env_of deployer, ProcessRouteOptimization_ex 1)] = requested_ex"
proof -
  have "step_ex requested_ex (env_of deployer, ProcessRouteOptimization_ex 1) = requested_ex"
    by (simp add: step_ex_def process_requested_ex)
  then show ?thesis
    by (simp add: run_ex_def fresh_ex_def [symmetric] requested_ex_def [symmetric])
qed

lemma processed_core_fields:
  "owner processed_core = deployer" "routeCounter processed_core = 1"
  "requester (routeRequests processed_core 1) = alice"
  "locationCount (routeRequests processed_core 1) = 3"
  "processed (routeRequests processed_core 1)"
  by (simp_all add: processed_core_eq processState_fields requested_core_fields)

lemma request_fresh_core:
  "requestRouteOptimization (env_of alice) [100, 200, 300] [150, 250, 350] [1, 2, 3] 1000 10
     fresh_core = Inr (requested_core, [RouteRequested 1 alice 3], 1)"
  by (simp add: requested_core_eq requestRouteOptimization_eq fresh_core_fields sender_env_of)

lemma request_fresh_ex:
  "requestRouteOptimization_ex (env_of alice) 100 150 1 1000 10 fresh_ex =
     Inr (requested_ex, [RouteRequested_ex 1 alice 3 1000], 1)"
  unfolding requested_ex_def
  by (simp add: step_ex_def requestRouteOptimization_ex_eq fresh_ex_def constructor_ex_def
      env_of_def alice_def)

lemma run_requested_core:
  "requested_core = run (constructor (env_of deployer))
     [(env_of alice, RequestRouteOptimization [100, 200, 300] [150, 250, 350] [1, 2, 3] 1000 10)]"
  by (simp add: run_def requested_core_def fresh_core_def)

lemma run_requested_ex:
  "requested_ex = run_ex (fst (constructor_ex (env_of deployer)))
     [(env_of alice, RequestRouteOptimization_ex 100 150 1 1000 10)]"
  by (simp add: run_ex_def requested_ex_def fresh_ex_def)

lemma requested_ex_facts:
  "\<not> paused requested_ex" "owner_ex requested_ex = deployer"
  "\<not> processed (routeRequests_ex requested_ex 1)"
  "requester (routeRequests_ex requested_ex 1) = alice"
  unfolding requested_ex_eq by (simp_all add: deployer_def alice_def)

lemma address_nonzero: "deployer \<noteq> 0" "alice \<noteq> 0" "mallory \<noteq> 0"
  by (simp_all add: deployer_def alice_def mallory_def)

lemma pausedreq_ex_eq: "pausedreq_ex = requested_ex\<lparr>paused := True\<rparr>"
  unfolding pausedreq_ex_def requested_ex_eq
  by (simp add: deployer_def env_of_def step_ex_def togglePause_def)

lemma run_pausedreq_ex:
  "run_ex (fst (constructor_ex (env_of deployer)))
     [(env_of alice, RequestRouteOptimization_ex 100 150 1 1000 10),
      (env_of deployer, TogglePause)] = pausedreq_ex"
  by (simp add: run_ex_def pausedreq_ex_def requested_ex_def fresh_ex_def)

lemma pausedreq_ex_facts:
  "paused pausedreq_ex" "owner_ex pausedreq_ex = deployer"
  "\<not> processed (routeRequests_ex pausedreq_ex 1)"
  "requester (routeRequests_ex pausedreq_ex 1) = alice"
  unfolding pausedreq_ex_eq requested_ex_eq by (simp_all add: deployer_def alice_def)

lemma processed_core_active: "isActive (routeLocations processed_core 1 0)"
proof -
  have "\<exists>j<Suc (Suc (Suc 0)). (of_nat j :: uint8) = 0" by (rule exI [of _ 0]) simp
  then show ?thesis
    by (simp add: processed_core_eq processState_fields requested_core_eq requestState_isActive
        fresh_core_fields)
qed

lemma processed_ex_inactive: "\<not> isActive (routeLocations_ex processed_ex 1 0)"
  unfolding processed_ex_eq by (simp add: zeroLocation_def)




lemma run_transferred_ex:
  "run_ex (fst (constructor_ex (env_of deployer))) [(env_of deployer, TransferOwnership alice)]
     = transferred_ex"
  by (simp add: run_ex_def transferred_ex_def fresh_ex_def)

subsection \<open>The route counter\<close>

lemma step_counter:
  "map unat (returned s ec) = [Suc (unat (routeCounter s))..<Suc (unat (routeCounter (step s ec)))]"
proof (cases rule: step_cases [of s ec])
  case revert
  obtain e c where ec: "ec = (e, c)" by (cases ec)
  have "returned s ec = []"
  proof (cases c)
    case (RequestRouteOptimization xs ys ps m cap)
    with revert ec show ?thesis
      by (auto simp: step_def requestRouteOptimization_eq requestState_fields
          split: if_splits dest!: arg_cong [where f = routeCounter])
  qed (simp_all add: ec)
  with revert show ?thesis by simp
next
  case (request xs ys ps m c)
  obtain e where ec: "ec = (e, RequestRouteOptimization xs ys ps m c)"
    using request(1) by (cases ec) auto
  from request have "returned s ec = [routeCounter s + 1]"
    by (auto simp: ec requestRouteOptimization_eq)
  with request show ?thesis
    by (simp add: requestState_fields unat_succ)
next
  case (process rid)
  then show ?thesis by (cases ec) (simp add: processState_fields)
next
  case (mark rid i)
  then show ?thesis by (cases ec) (simp add: markState_fields)
qed

lemma step_counter_mono: "unat (routeCounter s) \<le> unat (routeCounter (step s ec))"
  by (cases rule: step_cases [of s ec])
     (simp_all add: requestState_fields processState_fields markState_fields unat_succ)

lemma run_counter_mono: "unat (routeCounter s) \<le> unat (routeCounter (run s tr))"
proof (induction tr arbitrary: s)
  case Nil then show ?case by (simp add: run_Nil)
next
  case (Cons ec tr)
  from step_counter_mono [of s ec] Cons [of "step s ec"] show ?case
    by (simp add: run_Cons)
qed

lemma upt_split: "a \<le> b \<Longrightarrow> b \<le> c \<Longrightarrow> [a..<c] = [a..<b] @ [b..<c]"
  by (metis le_Suc_ex upt_add_eq_append)

lemma returnedIds_eq:
  "map unat (returnedIds s tr) =
     [Suc (unat (routeCounter s))..<Suc (unat (routeCounter (run s tr)))]"
proof (induction tr arbitrary: s)
  case Nil then show ?case by (simp add: run_Nil)
next
  case (Cons ec tr)
  have "[Suc (unat (routeCounter s))..<Suc (unat (routeCounter (run (step s ec) tr)))] =
      [Suc (unat (routeCounter s))..<Suc (unat (routeCounter (step s ec)))]
      @ [Suc (unat (routeCounter (step s ec)))..<Suc (unat (routeCounter (run (step s ec) tr)))]"
    using step_counter_mono [of s ec] run_counter_mono [of "step s ec" tr]
    by (intro upt_split) simp_all
  with Cons [of "step s ec"] step_counter [of s ec] show ?case
    by (simp add: run_Cons)
qed


lemma step_ex_counter_mono: "unat (routeCounter_ex s) \<le> unat (routeCounter_ex (step_ex s ec))"
  by (cases rule: step_ex_cases [of s ec])
     (simp_all add: requestState_ex_fields processState_ex_fields finalizeState_fields
        markState_ex_fields unat_succ)

lemma step_ex_counter:
  "map unat (returned_ex s ec) =
     [Suc (unat (routeCounter_ex s))..<Suc (unat (routeCounter_ex (step_ex s ec)))]"
proof (cases rule: step_ex_cases [of s ec])
  case revert
  obtain e c where ec: "ec = (e, c)" by (cases ec)
  have "returned_ex s ec = []"
  proof (cases c)
    case (RequestRouteOptimization_ex x y p m cap)
    with revert ec show ?thesis
      by (auto simp: step_ex_def requestRouteOptimization_ex_eq requestState_ex_fields
          split: if_splits dest!: arg_cong [where f = routeCounter_ex])
  qed (simp_all add: ec)
  with revert show ?thesis by simp
next
  case (request x y p m c)
  obtain e where ec: "ec = (e, RequestRouteOptimization_ex x y p m c)"
    using request(1) by (cases ec) auto
  from request have "returned_ex s ec = [routeCounter_ex s + 1]"
    by (auto simp: ec requestRouteOptimization_ex_eq)
  with request show ?thesis
    by (simp add: requestState_ex_fields unat_succ)
next
  case (process rid)
  then show ?thesis by (cases ec) (simp add: processState_ex_fields)
next
  case (finalize rid)
  then show ?thesis by (cases ec) (simp add: finalizeState_fields)
next
  case (mark rid i)
  then show ?thesis by (cases ec) (simp add: markState_ex_fields)
next
  case (addPauser p)
  then show ?thesis by (cases ec) simp
next
  case (removePauser p)
  then show ?thesis by (cases ec) simp
next
  case togglePause
  then show ?thesis by (cases ec) simp
next
  case (transferOwnership n)
  then show ?thesis by (cases ec) simp
qed

lemma run_ex_counter_mono: "unat (routeCounter_ex s) \<le> unat (routeCounter_ex (run_ex s tr))"
proof (induction tr arbitrary: s)
  case Nil then show ?case by (simp add: run_ex_Nil)
next
  case (Cons ec tr)
  from step_ex_counter_mono [of s ec] Cons [of "step_ex s ec"] show ?case
    by (simp add: run_ex_Cons)
qed

lemma returnedIds_ex_eq:
  "map unat (returnedIds_ex s tr) =
     [Suc (unat (routeCounter_ex s))..<Suc (unat (routeCounter_ex (run_ex s tr)))]"
proof (induction tr arbitrary: s)
  case Nil then show ?case by (simp add: run_ex_Nil)
next
  case (Cons ec tr)
  have "[Suc (unat (routeCounter_ex s))..<Suc (unat (routeCounter_ex (run_ex (step_ex s ec) tr)))] =
      [Suc (unat (routeCounter_ex s))..<Suc (unat (routeCounter_ex (step_ex s ec)))]
      @ [Suc (unat (routeCounter_ex (step_ex s ec)))
           ..<Suc (unat (routeCounter_ex (run_ex (step_ex s ec) tr)))]"
    using step_ex_counter_mono [of s ec] run_ex_counter_mono [of "step_ex s ec" tr]
    by (intro upt_split) simp_all
  with Cons [of "step_ex s ec"] step_ex_counter [of s ec] show ?case
    by (simp add: run_ex_Cons)
qed

lemma distinct_of_map_unat: "map unat ws = [a..<b] \<Longrightarrow> distinct ws"
  by (metis distinct_map distinct_upt)

subsection \<open>The processed flag\<close>

lemma owner_step: "owner (step s ec) = owner s"
  by (cases rule: step_cases [of s ec])
     (simp_all add: requestState_fields processState_fields markState_fields)

lemma owner_run: "owner (run s tr) = owner s"
  unfolding run_def by (induction tr arbitrary: s) (simp_all add: owner_step)

lemma processed_step:
  assumes "inv_fresh s" and "processed (routeRequests s r)"
  shows "processed (routeRequests (step s ec) r)"
proof (cases rule: step_cases [of s ec])
  case revert
  with assms show ?thesis by simp
next
  case (request xs ys ps m c)
  from assms(2) have "routeRequests s r \<noteq> zeroRequest" by (auto simp: zeroRequest_def)
  with assms(1) have "\<not> routeCounter s < r" by (auto simp: inv_fresh_def)
  with request(7) have "r \<noteq> routeCounter s + 1" using word_lt_succ by blast
  with assms(2) show ?thesis by (simp add: request(2) requestState_fields)
next
  case (process rid)
  with assms show ?thesis by (simp add: processState_fields)
next
  case (mark rid i)
  with assms show ?thesis by (simp add: markState_fields)
qed

lemma processed_run:
  "inv_fresh s \<Longrightarrow> processed (routeRequests s r) \<Longrightarrow> processed (routeRequests (run s tr) r)"
  unfolding run_def
  by (induction tr arbitrary: s) (simp_all add: processed_step inv_fresh_step)

lemma processed_step_ex:
  assumes "inv_fresh_ex s" and "processed (routeRequests_ex s r)"
  shows "processed (routeRequests_ex (step_ex s ec) r)"
proof (cases rule: step_ex_cases [of s ec])
  case (request x y p m c)
  from assms(2) have "routeRequests_ex s r \<noteq> zeroRequest_ex" by (auto simp: zeroRequest_ex_def)
  with assms(1) have "\<not> routeCounter_ex s < r" by (auto simp: inv_fresh_ex_def)
  with request(4) have "r \<noteq> routeCounter_ex s + 1" using word_lt_succ by blast
  with assms(2) show ?thesis by (simp add: request(2) requestState_ex_fields)
qed (use assms in \<open>simp_all add: processState_ex_fields finalizeState_fields markState_ex_fields\<close>)

lemma processed_run_ex:
  "inv_fresh_ex s \<Longrightarrow> processed (routeRequests_ex s r)
     \<Longrightarrow> processed (routeRequests_ex (run_ex s tr) r)"
  unfolding run_ex_def
  by (induction tr arbitrary: s) (simp_all add: processed_step_ex inv_fresh_ex_step)

subsection \<open>Completed deliveries\<close>

lemma inactive_step:
  assumes "\<not> routeCounter s < r" and "\<not> isActive (routeLocations s r k)"
  shows "\<not> isActive (routeLocations (step s ec) r k) \<and> \<not> routeCounter (step s ec) < r"
proof (cases rule: step_cases [of s ec])
  case revert
  with assms show ?thesis by simp
next
  case (request xs ys ps m c)
  from assms(1) request(7) have ne: "r \<noteq> routeCounter s + 1" using word_lt_succ by blast
  from assms(1) request(7) have "\<not> routeCounter s + 1 < r"
    using word_gt_succ by blast
  with ne assms(2) show ?thesis
    by (simp add: request(2) requestState_isActive requestState_fields)
next
  case (process rid)
  with assms show ?thesis by (simp add: processState_fields)
next
  case (mark rid i)
  with assms show ?thesis by (simp add: markState_isActive markState_fields)
qed

lemma inactive_run:
  "\<not> routeCounter s < r \<Longrightarrow> \<not> isActive (routeLocations s r k)
     \<Longrightarrow> \<not> isActive (routeLocations (run s tr) r k)"
proof (induction tr arbitrary: s)
  case Nil then show ?case by (simp add: run_Nil)
next
  case (Cons ec tr)
  from inactive_step [OF Cons.prems, of ec] Cons.IH [of "step s ec"] show ?case
    by (simp add: run_Cons)
qed

lemma inactive_step_ex:
  "\<not> isActive (routeLocations_ex s r k) \<Longrightarrow> \<not> isActive (routeLocations_ex (step_ex s ec) r k)"
  by (cases rule: step_ex_cases [of s ec])
     (simp_all add: requestState_ex_fields processState_ex_fields finalizeState_fields
        markState_ex_isActive)

lemma inactive_run_ex:
  "\<not> isActive (routeLocations_ex s r k) \<Longrightarrow> \<not> isActive (routeLocations_ex (run_ex s tr) r k)"
  unfolding run_ex_def by (induction tr arbitrary: s) (simp_all add: inactive_step_ex)

lemma markDeliveryCompleted_eq:
  "markDeliveryCompleted e rid i s =
     (if sender e \<noteq> requester (routeRequests s rid) then Inl NotYourRoute
      else if \<not> processed (routeRequests s rid) then Inl RouteNotProcessed
      else if locationCount (routeRequests s rid) \<le> ucast i then Inl InvalidLocationIndex
      else if \<not> isActive (routeLocations s rid i) then Inl LocationAlreadyCompleted
      else Inr (markState rid i s, [DeliveryCompleted rid i]))"
  by (simp add: markDeliveryCompleted_def markState_def not_less)

lemma markState_frame:
  "(r, k) \<noteq> (rid, i) \<Longrightarrow> routeLocations (markState rid i s) r k = routeLocations s r k"
  "encryptedX (routeLocations (markState rid i s) rid i) = encryptedX (routeLocations s rid i)"
  "encryptedY (routeLocations (markState rid i s) rid i) = encryptedY (routeLocations s rid i)"
  "priority (routeLocations (markState rid i s) rid i) = priority (routeLocations s rid i)"
  by (auto simp add: markState_def)

lemma markState_ex_frame:
  "(r, k) \<noteq> (rid, i) \<Longrightarrow>
     routeLocations_ex (markState_ex rid i s) r k = routeLocations_ex s r k"
  "encryptedX (routeLocations_ex (markState_ex rid i s) rid i) =
     encryptedX (routeLocations_ex s rid i)"
  "encryptedY (routeLocations_ex (markState_ex rid i s) rid i) =
     encryptedY (routeLocations_ex s rid i)"
  "priority (routeLocations_ex (markState_ex rid i s) rid i) =
     priority (routeLocations_ex s rid i)"
  by (auto simp add: markState_ex_def)

subsection \<open>The pauser set\<close>








subsection \<open>Access grants\<close>

lemma acl_step: "acl s \<subseteq> acl (step s ec)"
  by (cases rule: step_cases [of s ec])
     (auto simp add: requestState_acl processState_fields markState_fields)

lemma acl_run: "acl s \<subseteq> acl (run s tr)"
proof (induction tr arbitrary: s)
  case Nil then show ?case by (simp add: run_Nil)
next
  case (Cons ec tr)
  from acl_step [of s ec] Cons [of "step s ec"] show ?case by (auto simp add: run_Cons)
qed

lemma acl_ex_step: "acl_ex (step_ex s ec) = acl_ex s"
  by (cases rule: step_ex_cases [of s ec])
     (simp_all add: requestState_ex_fields processState_ex_fields finalizeState_fields
        markState_ex_fields)

lemma acl_ex_run: "acl_ex (run_ex s tr) = acl_ex s"
  unfolding run_ex_def by (induction tr arbitrary: s) (simp_all add: acl_ex_step)

text \<open>
  In the first contract every ciphertext stored by a request is granted to the contract
  and to the caller, and both results of a processing are granted to the contract and to
  the requester.
\<close>

lemma request_grants:
  assumes "requestRouteOptimization e xs ys ps m c s = Inr (s', evs, rid)"
  shows "\<forall>a\<in>{self e, sender e}.
           (H32 (maxTravelDistance (routeRequests s' rid)), a) \<in> acl s'
           \<and> (H8 (vehicleCapacity (routeRequests s' rid)), a) \<in> acl s'
           \<and> (\<forall>j<length xs.
                 (H32 (encryptedX (routeLocations s' rid (of_nat j))), a) \<in> acl s'
                 \<and> (H32 (encryptedY (routeLocations s' rid (of_nat j))), a) \<in> acl s'
                 \<and> (H8 (priority (routeLocations s' rid (of_nat j))), a) \<in> acl s')"
proof -
  from assms have len: "length xs \<le> 255" and rid: "rid = routeCounter s + 1"
    and s': "s' = requestState e xs ys ps m c s"
    by (auto simp add: requestRouteOptimization_eq split: if_splits)
  have loc: "\<And>j. j < length xs \<Longrightarrow> locationGrants e xs ys ps j \<subseteq> acl s'"
    unfolding s' requestState_acl by auto
  show ?thesis
  proof (intro ballI conjI allI impI)
    fix a assume a: "a \<in> {self e, sender e}"
    from a show "(H32 (maxTravelDistance (routeRequests s' rid)), a) \<in> acl s'"
      by (auto simp add: s' rid requestState_fields requestState_acl)
    from a show "(H8 (vehicleCapacity (routeRequests s' rid)), a) \<in> acl s'"
      by (auto simp add: s' rid requestState_fields requestState_acl)
    fix j assume j: "j < length xs"
    have l: "routeLocations s' rid (of_nat j) =
        \<lparr>encryptedX = AsEuint32 (xs ! j), encryptedY = AsEuint32 (ys ! j),
         priority = AsEuint8 (ps ! j), isActive = True\<rparr>"
      unfolding s' rid using j len by (rule requestState_location)
    from a loc [OF j] show "(H32 (encryptedX (routeLocations s' rid (of_nat j))), a) \<in> acl s'"
      by (auto simp add: l locationGrants_def)
    from a loc [OF j] show "(H32 (encryptedY (routeLocations s' rid (of_nat j))), a) \<in> acl s'"
      by (auto simp add: l locationGrants_def)
    from a loc [OF j] show "(H8 (priority (routeLocations s' rid (of_nat j))), a) \<in> acl s'"
      by (auto simp add: l locationGrants_def)
  qed
qed

lemma process_grants:
  assumes "processRouteOptimization e rid s = Inr (s', evs)"
  shows "\<forall>a\<in>{self e, requester (routeRequests s rid)}.
           (H32 (totalDistance (optimizedRoutes s' rid)), a) \<in> acl s'
           \<and> (H8 (estimatedTime (optimizedRoutes s' rid)), a) \<in> acl s'"
proof -
  from assms have s': "s' = processState e rid s"
    by (auto simp add: processRouteOptimization_eq split: if_splits)
  show ?thesis by (auto simp add: s' processState_fields)
qed


text \<open>
  In the first contract the operands that \<open>_calculateDistance\<close> reads from storage are
  granted to the contract in every storage reached from the constructor, the address of
  the contract being the same in every transaction.
\<close>

lemma inv_acl_step:
  assumes "inv_acl a s" and "self (fst ec) = a"
  shows "inv_acl a (step s ec)"
proof (cases rule: step_cases [of s ec])
  case revert
  with assms show ?thesis by simp
next
  case (request xs ys ps m c)
  show ?thesis
    unfolding inv_acl_def
  proof (intro allI impI)
    fix r i
    assume i: "i < unat (locationCount (routeRequests (step s ec) r))"
    show "isAllowed (acl (step s ec)) (H32 (encryptedX (routeLocations (step s ec) r (of_nat i)))) a
        \<and> isAllowed (acl (step s ec)) (H32 (encryptedY (routeLocations (step s ec) r (of_nat i)))) a"
    proof (cases "r = routeCounter s + 1")
      case True
      from i have j: "i < length xs"
        using request(6)
        by (simp add: request(2) requestState_fields True unat_of_nat_len32)
      have l: "routeLocations (step s ec) r (of_nat i) =
          \<lparr>encryptedX = AsEuint32 (xs ! i), encryptedY = AsEuint32 (ys ! i),
           priority = AsEuint8 (ps ! i), isActive = True\<rparr>"
        unfolding request(2) True using j request(6) by (rule requestState_location)
      have "locationGrants (fst ec) xs ys ps i \<subseteq> acl (step s ec)"
        unfolding request(2) requestState_acl using j by auto
      then show ?thesis
        using assms(2) by (auto simp add: l locationGrants_def isAllowed_def)
    next
      case False
      with i have i': "i < unat (locationCount (routeRequests s r))"
        by (simp add: request(2) requestState_fields)
      have "acl s \<subseteq> acl (step s ec)" by (rule acl_step)
      with assms(1) i' False show ?thesis
        by (auto simp add: inv_acl_def isAllowed_def request(2) requestState_other_route)
    qed
  qed
next
  case (process rid)
  have "acl s \<subseteq> acl (step s ec)" by (rule acl_step)
  with assms(1) show ?thesis
    unfolding inv_acl_def isAllowed_def process(2) processState_fields(3,5)
    by (auto split: if_splits)
next
  case (mark rid i)
  have "\<And>r k. encryptedX (routeLocations (markState rid i s) r k) =
      encryptedX (routeLocations s r k)"
    "\<And>r k. encryptedY (routeLocations (markState rid i s) r k) =
      encryptedY (routeLocations s r k)"
    by (simp_all add: markState_def)
  with assms(1) show ?thesis
    by (simp add: inv_acl_def mark(2) markState_fields)
qed

lemma inv_acl_run:
  "inv_acl a s \<Longrightarrow> \<forall>ec\<in>set tr. self (fst ec) = a \<Longrightarrow> inv_acl a (run s tr)"
  unfolding run_def by (induction tr arbitrary: s) (simp_all add: inv_acl_step)

lemma stored_operands_allowed:
  assumes "\<forall>ec\<in>set tr. self (fst ec) = a"
    and "i < unat (locationCount (routeRequests (run (constructor e0) tr) r))"
  shows "isAllowed (acl (run (constructor e0) tr))
           (H32 (encryptedX (routeLocations (run (constructor e0) tr) r (of_nat i)))) a
         \<and> isAllowed (acl (run (constructor e0) tr))
           (H32 (encryptedY (routeLocations (run (constructor e0) tr) r (of_nat i)))) a"
proof -
  have "inv_acl a (constructor e0)"
    by (simp add: inv_acl_def constructor_def zeroRequest_def)
  from inv_acl_run [OF this assms(1)] assms(2) show ?thesis
    by (simp add: inv_acl_def)
qed

text \<open>
  The pausable contract records no grant. In every storage reached from its constructor
  the access control list is empty, so the cast of the stored distance bound is refused:
  no call of \<open>processRouteOptimization\<close> succeeds and no route is ever processed.
\<close>

lemma acl_ex_reachable: "acl_ex (run_ex (fst (constructor_ex e0)) tr) = {}"
  by (simp add: acl_ex_run constructor_ex_def)

lemma requestRouteOptimization_ex_acl:
  "requestRouteOptimization_ex e x y p m c s = Inr (s', evs, rid) \<Longrightarrow> acl_ex s' = acl_ex s"
  by (auto simp add: requestRouteOptimization_ex_eq requestState_ex_fields split: if_splits)

lemma processRouteOptimization_ex_acl:
  "processRouteOptimization_ex e rid s = Inr (s', evs) \<Longrightarrow> acl_ex s' = acl_ex s"
  by (auto simp add: processRouteOptimization_ex_eq processState_ex_fields split: if_splits)

lemma process_ex_refused:
  assumes "s = run_ex (fst (constructor_ex e0)) tr"
  shows "processRouteOptimization_ex e rid s =
     Inl (if sender e \<noteq> owner_ex s then NotAuthorized
          else if paused s then ContractPaused
          else if processed (routeRequests_ex s rid) then RouteAlreadyProcessed
          else if requester (routeRequests_ex s rid) = 0 then InvalidRoute
          else ACLNotAllowed)"
  unfolding assms
  by (simp add: processRouteOptimization_ex_eq acl_ex_reachable isAllowed_def)

lemma never_processed_ex_step:
  assumes "acl_ex s = {}" and "\<forall>r. \<not> processed (routeRequests_ex s r)"
  shows "\<forall>r. \<not> processed (routeRequests_ex (step_ex s ec) r)"
proof (cases rule: step_ex_cases [of s ec])
  case (process rid)
  with assms(1) show ?thesis by (simp add: isAllowed_def)
qed (use assms(2) in \<open>simp_all add: requestState_ex_fields finalizeState_fields
       markState_ex_fields\<close>)

lemma never_processed_ex_run:
  "acl_ex s = {} \<Longrightarrow> \<forall>r. \<not> processed (routeRequests_ex s r)
     \<Longrightarrow> \<forall>r. \<not> processed (routeRequests_ex (run_ex s tr) r)"
proof (induction tr arbitrary: s)
  case Nil
  then show ?case by (simp add: run_ex_Nil)
next
  case (Cons ec tr)
  from never_processed_ex_step [OF Cons.prems] acl_ex_step [of s ec] Cons.prems(1)
  show ?case unfolding run_ex_Cons by (intro Cons.IH) simp_all
qed

lemma never_processed_ex:
  "\<not> processed (routeRequests_ex (run_ex (fst (constructor_ex e0)) tr) r)"
proof -
  have "\<forall>r. \<not> processed (routeRequests_ex (run_ex (fst (constructor_ex e0)) tr) r)"
    by (rule never_processed_ex_run) (simp_all add: constructor_ex_def zeroRequest_ex_def)
  then show ?thesis by simp
qed
subsection \<open>The accumulated distance\<close>

lemma distanceFold_Suc:
  "i \<le> n \<Longrightarrow> distanceFold s rid acc i (Suc n) =
     Add32 (distanceFold s rid acc i n) (calculateDistance s rid (of_nat n) (of_nat (n + 1)))"
  by (simp add: distanceFold_def)

lemma distanceFold_triv: "n \<le> i \<Longrightarrow> distanceFold s rid acc i n = acc"
  by (simp add: distanceFold_def)

lemma decrypt_calculateDistance:
  "decrypt32 (calculateDistance s rid from to) =
     (decrypt32 (encryptedX (routeLocations s rid to))
        - decrypt32 (encryptedX (routeLocations s rid from)))
     + (decrypt32 (encryptedY (routeLocations s rid to))
        - decrypt32 (encryptedY (routeLocations s rid from)))"
  by (simp add: calculateDistance_def Let_def)

text \<open>
  The plaintext of the accumulated total telescopes: it is the difference of the last and
  the first coordinates, modulo \<open>2 ^ 32\<close>. No absolute value is taken anywhere.
\<close>

lemma decrypt_distanceFold:
  "i \<le> n \<Longrightarrow>
   decrypt32 (distanceFold s rid acc i n) =
     decrypt32 acc
     + (decrypt32 (encryptedX (routeLocations s rid (of_nat n)))
          - decrypt32 (encryptedX (routeLocations s rid (of_nat i))))
     + (decrypt32 (encryptedY (routeLocations s rid (of_nat n)))
          - decrypt32 (encryptedY (routeLocations s rid (of_nat i))))"
proof (induction n)
  case 0
  then show ?case by (simp add: distanceFold_triv)
next
  case (Suc n)
  show ?case
  proof (cases "i \<le> n")
    case True
    with Suc.IH show ?thesis
      by (simp add: distanceFold_Suc decrypt_calculateDistance)
  next
    case False
    with Suc.prems have "i = Suc n" by simp
    then show ?thesis by (simp add: distanceFold_triv)
  qed
qed

text \<open>
  What a request followed by its processing stores: the plaintext of the total is the
  last coordinates minus the first ones.
\<close>

lemma total_plaintext:
  assumes req: "requestRouteOptimization e xs ys ps m c s = Inr (s1, evs, rid)"
    and pro: "processRouteOptimization e' rid s1 = Inr (s2, evs')"
  shows "decrypt32 (totalDistance (optimizedRoutes s2 rid)) =
           (last xs - hd xs) + (last ys - hd ys)"
proof -
  from req have len: "0 < length xs" "length xs \<le> 255" "length ys = length xs"
    and rid: "rid = routeCounter s + 1" and s1: "s1 = requestState e xs ys ps m c s"
    by (auto simp add: requestRouteOptimization_eq split: if_splits)
  from pro have s2: "s2 = processState e' rid s1"
    by (auto simp add: processRouteOptimization_eq split: if_splits)
  from len obtain n where n: "length xs = Suc n" by (cases xs) auto
  have "unat (of_nat (length xs) :: uint32) = length xs"
    using len by (intro unat_of_nat_len32)
  then have cnt: "unat (locationCount (routeRequests s1 rid)) = Suc n"
    unfolding s1 rid requestState_fields by (simp only: n fun_upd_same RouteRequest.simps)
  have l0: "routeLocations s1 rid 0 =
      \<lparr>encryptedX = AsEuint32 (xs ! 0), encryptedY = AsEuint32 (ys ! 0),
       priority = AsEuint8 (ps ! 0), isActive = True\<rparr>"
    using requestState_location [of 0 xs e ys ps m c s] len by (simp add: s1 rid)
  have ln: "routeLocations s1 rid (of_nat n) =
      \<lparr>encryptedX = AsEuint32 (xs ! n), encryptedY = AsEuint32 (ys ! n),
       priority = AsEuint8 (ps ! n), isActive = True\<rparr>"
    using requestState_location [of n xs e ys ps m c s] len n by (simp add: s1 rid)
  have "decrypt32 (totalDistance (optimizedRoutes s2 rid)) =
      decrypt32 (distanceFold s1 rid (AsEuint32 0) 0 n)"
    by (simp add: s2 processState_fields cnt)
  also have "\<dots> = (xs ! n - xs ! 0) + (ys ! n - ys ! 0)"
    using decrypt_distanceFold [of 0 n s1 rid "AsEuint32 0"] by (simp add: l0 ln)
  also have "\<dots> = (last xs - hd xs) + (last ys - hd ys)"
  proof -
    from len n have ne: "xs \<noteq> []" "ys \<noteq> []" and ly: "length ys = Suc n" by auto
    have "last xs = xs ! n" "last ys = ys ! n" "hd xs = xs ! 0" "hd ys = ys ! 0"
      using ne n ly by (simp_all add: last_conv_nth hd_conv_nth)
    then show ?thesis by simp
  qed
  finally show ?thesis .
qed

lemma singleton_hd_last: "length zs = Suc 0 \<Longrightarrow> last zs = hd zs"
  by (cases zs) auto

lemma sorted_hd_le_last:
  "sorted (map f (x # xs)) \<Longrightarrow> f x \<le> f (last (x # xs))"
  by (induction xs arbitrary: x) auto

lemma manhattan_sorted:
  "length xs = length ys \<Longrightarrow> xs \<noteq> [] \<Longrightarrow> sorted (map unat xs) \<Longrightarrow> sorted (map unat ys) \<Longrightarrow>
   manhattan xs ys = (unat (last xs) - unat (hd xs)) + (unat (last ys) - unat (hd ys))"
proof (induction xs ys rule: manhattan.induct)
  case (1 x1 x2 xs y1 y2 ys)
  have a: "unat x1 \<le> unat x2" "unat y1 \<le> unat y2"
    using "1.prems" by simp_all
  have b: "unat x2 \<le> unat (last (x2 # xs))" "unat y2 \<le> unat (last (y2 # ys))"
    using "1.prems" sorted_hd_le_last [of unat x2 xs] sorted_hd_le_last [of unat y2 ys]
    by simp_all
  have ih: "manhattan (x2 # xs) (y2 # ys) =
      (unat (last (x2 # xs)) - unat x2) + (unat (last (y2 # ys)) - unat y2)"
    using "1.IH" "1.prems" by simp
  have "absDiff x2 x1 = unat x2 - unat x1" "absDiff y2 y1 = unat y2 - unat y1"
    using a by (simp_all add: absDiff_def)
  with ih a b show ?case by simp
qed (auto simp add: singleton_hd_last singleton_hd_last [OF sym])

text \<open>
  So the stored total is the Manhattan distance exactly on routes whose coordinates never
  decrease from one stop to the next.
\<close>

lemma total_is_manhattan_when_nondecreasing:
  assumes req: "requestRouteOptimization e xs ys ps m c s = Inr (s1, evs, rid)"
    and pro: "processRouteOptimization e' rid s1 = Inr (s2, evs')"
    and mono: "sorted (map unat xs)" "sorted (map unat ys)"
  shows "decrypt32 (totalDistance (optimizedRoutes s2 rid)) = of_nat (manhattan xs ys)"
proof -
  from req have len: "xs \<noteq> []" "length xs = length ys"
    by (auto simp add: requestRouteOptimization_eq split: if_splits)
  then have ys: "ys \<noteq> []" by auto
  have hx: "unat (hd xs) \<le> unat (last xs)"
    using sorted_hd_le_last [of unat "hd xs" "tl xs"] mono(1) len(1) by simp
  have hy: "unat (hd ys) \<le> unat (last ys)"
    using sorted_hd_le_last [of unat "hd ys" "tl ys"] mono(2) ys by simp
  have "(of_nat (manhattan xs ys) :: uint32) =
      of_nat (unat (last xs) - unat (hd xs)) + of_nat (unat (last ys) - unat (hd ys))"
    by (simp add: manhattan_sorted [OF len(2) len(1) mono])
  also have "\<dots> = (last xs - hd xs) + (last ys - hd ys)"
    using hx hy by (simp add: of_nat_diff)
  finally show ?thesis by (simp add: total_plaintext [OF req pro])
qed

subsection \<open>Noninterference\<close>

lemma low_eq_refl: "low_eq s s"
  by (simp add: low_eq_def)

lemma low_eq_fields:
  assumes "low_eq s s'"
  shows "owner s = owner s'" "routeCounter s = routeCounter s'" "userRoutes s = userRoutes s'"
    "requester (routeRequests s r) = requester (routeRequests s' r)"
    "locationCount (routeRequests s r) = locationCount (routeRequests s' r)"
    "processed (routeRequests s r) = processed (routeRequests s' r)"
    "isActive (routeLocations s r k) = isActive (routeLocations s' r k)"
  using assms by (simp_all add: low_eq_def)

lemma low_eq_request:
  assumes "low_eq s s'" and "length xs = length xs'"
  shows "low_eq (requestState e xs ys ps m c s) (requestState e xs' ys' ps' m' c' s')"
  using assms
  unfolding low_eq_def requestState_fields requestState_isActive
  by simp

lemma low_eq_process:
  assumes "low_eq s s'"
  shows "low_eq (processState e rid s) (processState e rid s')"
  using assms
  unfolding low_eq_def processState_fields
  by simp

lemma low_eq_mark:
  assumes "low_eq s s'"
  shows "low_eq (markState rid i s) (markState rid i s')"
  using assms
  unfolding low_eq_def markState_fields markState_isActive
  by simp

lemma outcome_request:
  "outcome s (e, RequestRouteOptimization xs ys ps m c) =
     (if length xs \<noteq> length ys then Inl CoordinateArraysMismatch
      else if length xs \<noteq> length ps then Inl PriorityArrayMismatch
      else if length xs = 0 then Inl NoLocationsProvided
      else if routeCounter s = - 1 \<or> 255 < length xs then Inl Panic
      else Inr [RouteRequested (routeCounter s + 1) (sender e) (of_nat (length xs))])"
  by (simp add: outcome_def requestRouteOptimization_eq)

lemma step_request:
  "step s (e, RequestRouteOptimization xs ys ps m c) =
     (if length xs = length ys \<and> length xs = length ps \<and> length xs \<noteq> 0
         \<and> routeCounter s \<noteq> - 1 \<and> \<not> 255 < length xs
      then requestState e xs ys ps m c s else s)"
  by (auto simp add: step_def requestRouteOptimization_eq)

lemma outcome_process:
  "outcome s (e, ProcessRouteOptimization rid) =
     (if sender e \<noteq> owner s then Inl NotAuthorized
      else if processed (routeRequests s rid) then Inl RouteAlreadyProcessed
      else if requester (routeRequests s rid) = 0 then Inl InvalidRoute
      else if locationCount (routeRequests s rid) = 0
          \<or> 255 < unat (locationCount (routeRequests s rid)) then Inl Panic
      else Inr [RouteOptimized rid (requester (routeRequests s rid)) 0])"
  by (simp add: outcome_def processRouteOptimization_eq)

lemma step_process:
  "step s (e, ProcessRouteOptimization rid) =
     (if sender e = owner s \<and> \<not> processed (routeRequests s rid)
         \<and> requester (routeRequests s rid) \<noteq> 0 \<and> locationCount (routeRequests s rid) \<noteq> 0
         \<and> \<not> 255 < unat (locationCount (routeRequests s rid))
      then processState e rid s else s)"
  by (simp add: step_def processRouteOptimization_eq)

lemma outcome_mark:
  "outcome s (e, MarkDeliveryCompleted rid i) =
     (if sender e \<noteq> requester (routeRequests s rid) then Inl NotYourRoute
      else if \<not> processed (routeRequests s rid) then Inl RouteNotProcessed
      else if locationCount (routeRequests s rid) \<le> ucast i then Inl InvalidLocationIndex
      else if \<not> isActive (routeLocations s rid i) then Inl LocationAlreadyCompleted
      else Inr [DeliveryCompleted rid i])"
  by (simp add: outcome_def markDeliveryCompleted_eq)

lemma step_mark:
  "step s (e, MarkDeliveryCompleted rid i) =
     (if sender e = requester (routeRequests s rid) \<and> processed (routeRequests s rid)
         \<and> \<not> locationCount (routeRequests s rid) \<le> ucast i
         \<and> isActive (routeLocations s rid i)
      then markState rid i s else s)"
  by (simp add: step_def markDeliveryCompleted_eq)

lemma noninterference_step:
  assumes le: "low_eq s s'" and ce: "conf_eq ec ec'"
  shows "outcome s ec = outcome s' ec' \<and> low_eq (step s ec) (step s' ec')"
proof -
  obtain e c where ec: "ec = (e, c)" by (cases ec)
  obtain e' c' where ec': "ec' = (e', c')" by (cases ec')
  from ce have e': "e' = e" and sp: "same_public c c'" by (simp_all add: conf_eq_def ec ec')
  show ?thesis
  proof (cases c)
    case (RequestRouteOptimization xs ys ps m cap)
    with sp obtain xs' ys' ps' m' cap' where c': "c' = RequestRouteOptimization xs' ys' ps' m' cap'"
      and len: "length xs' = length xs" "length ys' = length ys" "length ps' = length ps"
      by (cases c') auto
    have o: "outcome s ec = outcome s' ec'"
      unfolding ec ec' e' RequestRouteOptimization c' outcome_request len
      by (simp add: low_eq_fields(2) [OF le])
    have "low_eq (step s ec) (step s' ec')"
      unfolding ec ec' e' RequestRouteOptimization c' step_request len
      using le low_eq_request [OF le len(1) [symmetric]]
      by (simp add: low_eq_fields(2) [OF le])
    with o show ?thesis by simp
  next
    case (ProcessRouteOptimization rid)
    with sp have c': "c' = ProcessRouteOptimization rid" by (cases c') auto
    note f = low_eq_fields [OF le]
    have o: "outcome s ec = outcome s' ec'"
      unfolding ec ec' e' ProcessRouteOptimization c' outcome_process
      by (simp add: f)
    have "low_eq (step s ec) (step s' ec')"
      unfolding ec ec' e' ProcessRouteOptimization c' step_process
      using le low_eq_process [OF le]
      by (simp add: f)
    with o show ?thesis by simp
  next
    case (MarkDeliveryCompleted rid i)
    with sp have c': "c' = MarkDeliveryCompleted rid i" by (cases c') auto
    note f = low_eq_fields [OF le]
    have o: "outcome s ec = outcome s' ec'"
      unfolding ec ec' e' MarkDeliveryCompleted c' outcome_mark
      by (simp add: f)
    have "low_eq (step s ec) (step s' ec')"
      unfolding ec ec' e' MarkDeliveryCompleted c' step_mark
      using le low_eq_mark [OF le]
      by (simp add: f)
    with o show ?thesis by simp
  qed
qed

lemma noninterference_run:
  "low_eq s s' \<Longrightarrow> list_all2 conf_eq tr tr' \<Longrightarrow> observe s tr = observe s' tr'"
proof (induction tr arbitrary: s s' tr')
  case Nil
  then show ?case by simp
next
  case (Cons ec tr)
  from Cons.prems(2) obtain ec' tr2 where tr': "tr' = ec' # tr2"
    and ce: "conf_eq ec ec'" and rest: "list_all2 conf_eq tr tr2"
    by (auto simp add: list_all2_Cons1)
  from noninterference_step [OF Cons.prems(1) ce]
  have o: "outcome s ec = outcome s' ec'" and l: "low_eq (step s ec) (step s' ec')" by simp_all
  from Cons.IH [OF l rest] o show ?case by (simp add: tr')
qed

lemma low_eq_ex_refl: "low_eq_ex s s"
  by (simp add: low_eq_ex_def)

lemma low_eq_ex_fields:
  assumes "low_eq_ex s s'"
  shows "owner_ex s = owner_ex s'" "routeCounter_ex s = routeCounter_ex s'"
    "paused s = paused s'" "pausers s = pausers s'"
    "requester (routeRequests_ex s r) = requester (routeRequests_ex s' r)"
    "locationCount (routeRequests_ex s r) = locationCount (routeRequests_ex s' r)"
    "processed (routeRequests_ex s r) = processed (routeRequests_ex s' r)"
    "isActive (routeLocations_ex s r k) = isActive (routeLocations_ex s' r k)"
  using assms by (simp_all add: low_eq_ex_def)

lemma low_eq_ex_request:
  "low_eq_ex s s' \<Longrightarrow> low_eq_ex (requestState_ex e m c s) (requestState_ex e m' c' s')"
  unfolding low_eq_ex_def requestState_ex_fields by simp

lemma low_eq_ex_process:
  "low_eq_ex s s' \<Longrightarrow> low_eq_ex (processState_ex e rid s) (processState_ex e rid s')"
  unfolding low_eq_ex_def processState_ex_fields by simp

lemma low_eq_ex_finalize:
  "low_eq_ex s s' \<Longrightarrow> low_eq_ex (finalizeState rid s) (finalizeState rid s')"
  unfolding low_eq_ex_def finalizeState_fields by simp

lemma low_eq_ex_mark:
  "low_eq_ex s s' \<Longrightarrow> low_eq_ex (markState_ex rid i s) (markState_ex rid i s')"
  unfolding low_eq_ex_def markState_ex_fields markState_ex_isActive by simp

lemma low_eq_ex_admin:
  "low_eq_ex s s' \<Longrightarrow> low_eq_ex (s\<lparr>pausers := f\<rparr>) (s'\<lparr>pausers := f\<rparr>)"
  "low_eq_ex s s' \<Longrightarrow> low_eq_ex (s\<lparr>paused := b\<rparr>) (s'\<lparr>paused := b\<rparr>)"
  "low_eq_ex s s' \<Longrightarrow> low_eq_ex (s\<lparr>owner_ex := a\<rparr>) (s'\<lparr>owner_ex := a\<rparr>)"
  by (simp_all add: low_eq_ex_def)

lemma outcome_ex_eqs:
  "outcome_ex s (e, RequestRouteOptimization_ex x y p m c) =
     (if paused s then Inl ContractPaused
      else if routeCounter_ex s = - 1 then Inl Panic
      else Inr [RouteRequested_ex (routeCounter_ex s + 1) (sender e) 3 (block_timestamp e)])"
  "outcome_ex s (e, ProcessRouteOptimization_ex rid) =
     (if sender e \<noteq> owner_ex s then Inl NotAuthorized
      else if paused s then Inl ContractPaused
      else if processed (routeRequests_ex s rid) then Inl RouteAlreadyProcessed
      else if requester (routeRequests_ex s rid) = 0 then Inl InvalidRoute
      else if \<not> isAllowed (acl_ex s) (H32 (maxTravelDistance (routeRequests_ex s rid))) (self e)
        then Inl ACLNotAllowed
      else if 255 < unat (locationCount (routeRequests_ex s rid)) then Inl Panic
      else Inr [RouteOptimized_ex rid (requester (routeRequests_ex s rid)) (block_timestamp e)])"
  "outcome_ex s (e, FinalizeRoute rid) =
     (if sender e \<noteq> owner_ex s then Inl NotAuthorized
      else if paused s then Inl ContractPaused
      else if \<not> processed (routeRequests_ex s rid) then Inl RouteNotProcessed
      else Inr [RouteFinalized rid 0 0])"
  "outcome_ex s (e, MarkDeliveryCompleted_ex rid i) =
     (if sender e \<noteq> requester (routeRequests_ex s rid) then Inl NotYourRoute
      else if paused s then Inl ContractPaused
      else if \<not> processed (routeRequests_ex s rid) then Inl RouteNotProcessed
      else if locationCount (routeRequests_ex s rid) \<le> ucast i then Inl InvalidLocationIndex
      else if \<not> isActive (routeLocations_ex s rid i) then Inl LocationAlreadyCompleted
      else Inr [DeliveryCompleted_ex rid i (block_timestamp e)])"
  "outcome_ex s (e, AddPauser q) =
     (if sender e \<noteq> owner_ex s then Inl NotAuthorized
      else if q = 0 then Inl InvalidAddress
      else if pausers s q then Inl AlreadyPauser
      else Inr [PauserAdded q])"
  "outcome_ex s (e, RemovePauser q) =
     (if sender e \<noteq> owner_ex s then Inl NotAuthorized
      else if \<not> pausers s q then Inl NotPauser
      else Inr [PauserRemoved q])"
  "outcome_ex s (e, TogglePause) =
     (if \<not> pausers s (sender e) \<and> sender e \<noteq> owner_ex s then Inl NotPauser
      else Inr [ContractPausedToggled (\<not> paused s)])"
  "outcome_ex s (e, TransferOwnership newOwner) =
     (if sender e \<noteq> owner_ex s then Inl NotAuthorized
      else if newOwner = 0 then Inl InvalidAddress
      else Inr [OwnershipTransferred (owner_ex s) newOwner])"
  by (simp_all add: outcome_ex_def requestRouteOptimization_ex_eq processRouteOptimization_ex_eq
      finalizeRoute_eq markDeliveryCompleted_ex_eq addPauser_def removePauser_def
      togglePause_def transferOwnership_def)

lemma step_ex_eqs:
  "step_ex s (e, RequestRouteOptimization_ex x y p m c) =
     (if \<not> paused s \<and> routeCounter_ex s \<noteq> - 1 then requestState_ex e m c s else s)"
  "step_ex s (e, ProcessRouteOptimization_ex rid) =
     (if sender e = owner_ex s \<and> \<not> paused s \<and> \<not> processed (routeRequests_ex s rid)
         \<and> requester (routeRequests_ex s rid) \<noteq> 0
         \<and> isAllowed (acl_ex s) (H32 (maxTravelDistance (routeRequests_ex s rid))) (self e)
         \<and> \<not> 255 < unat (locationCount (routeRequests_ex s rid))
      then processState_ex e rid s else s)"
  "step_ex s (e, FinalizeRoute rid) =
     (if sender e = owner_ex s \<and> \<not> paused s \<and> processed (routeRequests_ex s rid)
      then finalizeState rid s else s)"
  "step_ex s (e, MarkDeliveryCompleted_ex rid i) =
     (if sender e = requester (routeRequests_ex s rid) \<and> \<not> paused s
         \<and> processed (routeRequests_ex s rid)
         \<and> \<not> locationCount (routeRequests_ex s rid) \<le> ucast i
         \<and> isActive (routeLocations_ex s rid i)
      then markState_ex rid i s else s)"
  "step_ex s (e, AddPauser q) =
     (if sender e = owner_ex s \<and> q \<noteq> 0 \<and> \<not> pausers s q
      then s\<lparr>pausers := (pausers s)(q := True)\<rparr> else s)"
  "step_ex s (e, RemovePauser q) =
     (if sender e = owner_ex s \<and> pausers s q
      then s\<lparr>pausers := (pausers s)(q := False)\<rparr> else s)"
  "step_ex s (e, TogglePause) =
     (if pausers s (sender e) \<or> sender e = owner_ex s
      then s\<lparr>paused := \<not> paused s\<rparr> else s)"
  "step_ex s (e, TransferOwnership newOwner) =
     (if sender e = owner_ex s \<and> newOwner \<noteq> 0 then s\<lparr>owner_ex := newOwner\<rparr> else s)"
  by (auto simp add: step_ex_def requestRouteOptimization_ex_eq processRouteOptimization_ex_eq
      finalizeRoute_eq markDeliveryCompleted_ex_eq addPauser_def removePauser_def
      togglePause_def transferOwnership_def)

text \<open>
  The pausable contract records no grant: the access control list is empty in every
  storage reached from its constructor, and the check of \<open>processRouteOptimization\<close> on the
  stored distance bound then fails whatever the bound is.
\<close>

lemma noninterference_step_ex:
  assumes le: "low_eq_ex s s'" and ce: "conf_eq_ex ec ec'"
    and acl: "acl_ex s = {}" "acl_ex s' = {}"
  shows "outcome_ex s ec = outcome_ex s' ec' \<and> low_eq_ex (step_ex s ec) (step_ex s' ec')"
proof -
  obtain e c where ec: "ec = (e, c)" by (cases ec)
  obtain e' c' where ec': "ec' = (e', c')" by (cases ec')
  from ce have e': "e' = e" and sp: "same_public_ex c c'"
    by (simp_all add: conf_eq_ex_def ec ec')
  note f = low_eq_ex_fields [OF le]
  show ?thesis
  proof (cases c)
    case (RequestRouteOptimization_ex x y p m cap)
    with sp obtain x' y' p' m' cap' where c': "c' = RequestRouteOptimization_ex x' y' p' m' cap'"
      by (cases c') auto
    have o: "outcome_ex s ec = outcome_ex s' ec'"
      unfolding ec ec' e' RequestRouteOptimization_ex c' outcome_ex_eqs by (simp add: f)
    have "low_eq_ex (step_ex s ec) (step_ex s' ec')"
      unfolding ec ec' e' RequestRouteOptimization_ex c' step_ex_eqs
      using le low_eq_ex_request [OF le] by (simp add: f)
    with o show ?thesis by simp
  next
    case (ProcessRouteOptimization_ex rid)
    with sp have c': "c' = c" by simp
    have o: "outcome_ex s ec = outcome_ex s' ec'"
      unfolding ec ec' e' c' ProcessRouteOptimization_ex outcome_ex_eqs
      by (simp add: f acl isAllowed_def)
    have "low_eq_ex (step_ex s ec) (step_ex s' ec')"
      unfolding ec ec' e' c' ProcessRouteOptimization_ex step_ex_eqs
      using le by (simp add: acl isAllowed_def)
    with o show ?thesis by simp
  next
    case (FinalizeRoute rid)
    with sp have c': "c' = c" by simp
    have o: "outcome_ex s ec = outcome_ex s' ec'"
      unfolding ec ec' e' c' FinalizeRoute outcome_ex_eqs by (simp add: f)
    have "low_eq_ex (step_ex s ec) (step_ex s' ec')"
      unfolding ec ec' e' c' FinalizeRoute step_ex_eqs
      using le low_eq_ex_finalize [OF le] by (simp add: f)
    with o show ?thesis by simp
  next
    case (MarkDeliveryCompleted_ex rid i)
    with sp have c': "c' = c" by simp
    have o: "outcome_ex s ec = outcome_ex s' ec'"
      unfolding ec ec' e' c' MarkDeliveryCompleted_ex outcome_ex_eqs by (simp add: f)
    have "low_eq_ex (step_ex s ec) (step_ex s' ec')"
      unfolding ec ec' e' c' MarkDeliveryCompleted_ex step_ex_eqs
      using le low_eq_ex_mark [OF le] by (simp add: f)
    with o show ?thesis by simp
  next
    case (AddPauser q)
    with sp have c': "c' = c" by simp
    have o: "outcome_ex s ec = outcome_ex s' ec'"
      unfolding ec ec' e' c' AddPauser outcome_ex_eqs by (simp add: f)
    have "low_eq_ex (step_ex s ec) (step_ex s' ec')"
      unfolding ec ec' e' c' AddPauser step_ex_eqs
      using le low_eq_ex_admin(1) [OF le] by (simp add: f)
    with o show ?thesis by simp
  next
    case (RemovePauser q)
    with sp have c': "c' = c" by simp
    have o: "outcome_ex s ec = outcome_ex s' ec'"
      unfolding ec ec' e' c' RemovePauser outcome_ex_eqs by (simp add: f)
    have "low_eq_ex (step_ex s ec) (step_ex s' ec')"
      unfolding ec ec' e' c' RemovePauser step_ex_eqs
      using le low_eq_ex_admin(1) [OF le] by (simp add: f)
    with o show ?thesis by simp
  next
    case TogglePause
    with sp have c': "c' = c" by simp
    have o: "outcome_ex s ec = outcome_ex s' ec'"
      unfolding ec ec' e' c' TogglePause outcome_ex_eqs by (simp add: f)
    have "low_eq_ex (step_ex s ec) (step_ex s' ec')"
      unfolding ec ec' e' c' TogglePause step_ex_eqs
      using le low_eq_ex_admin(2) [OF le] by (simp add: f)
    with o show ?thesis by simp
  next
    case (TransferOwnership newOwner)
    with sp have c': "c' = c" by simp
    have o: "outcome_ex s ec = outcome_ex s' ec'"
      unfolding ec ec' e' c' TransferOwnership outcome_ex_eqs by (simp add: f)
    have "low_eq_ex (step_ex s ec) (step_ex s' ec')"
      unfolding ec ec' e' c' TransferOwnership step_ex_eqs
      using le low_eq_ex_admin(3) [OF le] by (simp add: f)
    with o show ?thesis by simp
  qed
qed

lemma noninterference_run_ex:
  "low_eq_ex s s' \<Longrightarrow> list_all2 conf_eq_ex tr tr' \<Longrightarrow> acl_ex s = {} \<Longrightarrow> acl_ex s' = {}
     \<Longrightarrow> observe_ex s tr = observe_ex s' tr'"
proof (induction tr arbitrary: s s' tr')
  case Nil
  then show ?case by simp
next
  case (Cons ec tr)
  from Cons.prems(2) obtain ec' tr2 where tr': "tr' = ec' # tr2"
    and ce: "conf_eq_ex ec ec'" and rest: "list_all2 conf_eq_ex tr tr2"
    by (auto simp add: list_all2_Cons1)
  from noninterference_step_ex [OF Cons.prems(1) ce Cons.prems(3,4)]
  have o: "outcome_ex s ec = outcome_ex s' ec'"
    and l: "low_eq_ex (step_ex s ec) (step_ex s' ec')" by simp_all
  have a: "acl_ex (step_ex s ec) = {}" "acl_ex (step_ex s' ec') = {}"
    using Cons.prems(3,4) by (simp_all add: acl_ex_step)
  from Cons.IH [OF l rest a] o show ?case by (simp add: tr')
qed

section \<open>The claims\<close>

text \<open>
  Claim C8: a successful \<open>processRouteOptimization\<close> stores the identity order
  \<open>[0, 1, ..., locationCount - 1]\<close>, whose length is the location count; and in every
  state reached from the constructor every processed route has this order. Both
  contracts.
\<close>

theorem locationOrder_identity:
  "(processRouteOptimization e rid s = Inr (s', evs) \<longrightarrow>
      locationOrder (optimizedRoutes s' rid) =
        map of_nat [0..<unat (locationCount (routeRequests s' rid))]
      \<and> length (locationOrder (optimizedRoutes s' rid)) =
          unat (locationCount (routeRequests s' rid)))
   \<and> (processRouteOptimization_ex e rid x = Inr (x', evs') \<longrightarrow>
      locationOrder (optimizedRoutes_ex x' rid) =
        map of_nat [0..<unat (locationCount (routeRequests_ex x' rid))]
      \<and> length (locationOrder (optimizedRoutes_ex x' rid)) =
          unat (locationCount (routeRequests_ex x' rid)))
   \<and> (processed (routeRequests (run (constructor e0) tr) r) \<longrightarrow>
      locationOrder (optimizedRoutes (run (constructor e0) tr) r) =
        map of_nat [0..<unat (locationCount (routeRequests (run (constructor e0) tr) r))]
      \<and> length (locationOrder (optimizedRoutes (run (constructor e0) tr) r)) =
          unat (locationCount (routeRequests (run (constructor e0) tr) r)))
   \<and> (processed (routeRequests_ex (run_ex (fst (constructor_ex e0)) tr') r) \<longrightarrow>
      locationOrder (optimizedRoutes_ex (run_ex (fst (constructor_ex e0)) tr') r) =
        map of_nat
          [0..<unat (locationCount (routeRequests_ex (run_ex (fst (constructor_ex e0)) tr') r))]
      \<and> length (locationOrder (optimizedRoutes_ex (run_ex (fst (constructor_ex e0)) tr') r)) =
          unat (locationCount (routeRequests_ex (run_ex (fst (constructor_ex e0)) tr') r)))"
proof (intro conjI impI)
  assume a: "processRouteOptimization e rid s = Inr (s', evs)"
  then have s': "s' = processState e rid s"
    by (simp add: processRouteOptimization_eq split: if_splits)
  show o: "locationOrder (optimizedRoutes s' rid) =
        map of_nat [0..<unat (locationCount (routeRequests s' rid))]"
    by (simp add: s' processState_fields)
  show "length (locationOrder (optimizedRoutes s' rid)) =
          unat (locationCount (routeRequests s' rid))"
    by (simp add: o)
next
  assume a: "processRouteOptimization_ex e rid x = Inr (x', evs')"
  then have x': "x' = processState_ex e rid x"
    by (simp add: processRouteOptimization_ex_eq split: if_splits)
  show o: "locationOrder (optimizedRoutes_ex x' rid) =
        map of_nat [0..<unat (locationCount (routeRequests_ex x' rid))]"
    by (simp add: x' processState_ex_fields)
  show "length (locationOrder (optimizedRoutes_ex x' rid)) =
          unat (locationCount (routeRequests_ex x' rid))"
    by (simp add: o)
next
  assume a: "processed (routeRequests (run (constructor e0) tr) r)"
  have "inv_order (run (constructor e0) tr)"
    using inv_run [OF inv_constructor] by (simp add: inv_def)
  with a show o: "locationOrder (optimizedRoutes (run (constructor e0) tr) r) =
        map of_nat [0..<unat (locationCount (routeRequests (run (constructor e0) tr) r))]"
    by (simp add: inv_order_def)
  show "length (locationOrder (optimizedRoutes (run (constructor e0) tr) r)) =
          unat (locationCount (routeRequests (run (constructor e0) tr) r))"
    by (simp add: o)
next
  assume a: "processed (routeRequests_ex (run_ex (fst (constructor_ex e0)) tr') r)"
  have "inv_order_ex (run_ex (fst (constructor_ex e0)) tr')"
    using inv_ex_run [OF inv_ex_constructor] by (simp add: inv_ex_def)
  with a show o: "locationOrder (optimizedRoutes_ex (run_ex (fst (constructor_ex e0)) tr') r) =
        map of_nat
          [0..<unat (locationCount (routeRequests_ex (run_ex (fst (constructor_ex e0)) tr') r))]"
    by (simp add: inv_order_ex_def)
  show "length (locationOrder (optimizedRoutes_ex (run_ex (fst (constructor_ex e0)) tr') r)) =
          unat (locationCount (routeRequests_ex (run_ex (fst (constructor_ex e0)) tr') r))"
    by (simp add: o)
qed

theorem locationOrder_identity_witness:
  "locationOrder (optimizedRoutes processed_core 1) = [0, 1, 2]
   \<and> locationOrder (optimizedRoutes_ex processed_ex 1) = [0, 1, 2]
   \<and> length (locationOrder (optimizedRoutes processed_core 1)) = 3
   \<and> length (locationOrder (optimizedRoutes_ex processed_ex 1)) = 3"
proof -
  note inst = locationOrder_identity [of "env_of deployer" 1 requested_core processed_core
      "[RouteOptimized 1 alice 0]" granted_ex processed_ex "[RouteOptimized_ex 1 alice 1000]"
      "env_of deployer"
      "[(env_of alice, RequestRouteOptimization [100, 200, 300] [150, 250, 350] [1, 2, 3] 1000 10),
        (env_of deployer, ProcessRouteOptimization 1)]" 1
      "[(env_of alice, RequestRouteOptimization_ex 100 150 1 1000 10),
        (env_of deployer, ProcessRouteOptimization_ex 1)]"]
  have c: "locationCount (routeRequests processed_core 1) = 3"
    by (simp add: processed_core_fields)
  have d: "locationCount (routeRequests_ex processed_ex 1) = 3"
    unfolding processed_ex_eq by simp
  from inst show ?thesis
    unfolding run_fixture_core run_fixture_ex
    by (simp add: process_requested_core process_granted_ex c d upt_3
        processed_core_fields processed_ex_facts)
qed

text \<open>
  Claim C3: a successful \<open>requestRouteOptimization\<close> returns the counter before the
  call plus one and leaves the counter at that value; no transaction decreases the
  counter; along any run from the constructor the identifiers returned are
  \<open>1, 2, ..., routeCounter\<close> in this order, hence pairwise distinct and never reused;
  and every written request slot has an identifier between 1 and the counter. Both
  contracts.
\<close>

theorem route_ids_monotonic:
  "(requestRouteOptimization e xs ys ps m c s = Inr (s', evs, rid) \<longrightarrow>
      rid = routeCounter s + 1 \<and> unat rid = Suc (unat (routeCounter s))
      \<and> routeCounter s' = rid)
   \<and> (requestRouteOptimization_ex e x y p m c t = Inr (t', evs', rid') \<longrightarrow>
      rid' = routeCounter_ex t + 1 \<and> unat rid' = Suc (unat (routeCounter_ex t))
      \<and> routeCounter_ex t' = rid')
   \<and> unat (routeCounter s) \<le> unat (routeCounter (step s ec))
   \<and> unat (routeCounter_ex t) \<le> unat (routeCounter_ex (step_ex t ec'))
   \<and> map unat (returnedIds (constructor e0) tr) =
        [1..<Suc (unat (routeCounter (run (constructor e0) tr)))]
   \<and> map unat (returnedIds_ex (fst (constructor_ex e0)) tr') =
        [1..<Suc (unat (routeCounter_ex (run_ex (fst (constructor_ex e0)) tr')))]
   \<and> distinct (returnedIds (constructor e0) tr)
   \<and> distinct (returnedIds_ex (fst (constructor_ex e0)) tr')
   \<and> (routeRequests (run (constructor e0) tr) r \<noteq> zeroRequest \<longrightarrow>
        0 < r \<and> r \<le> routeCounter (run (constructor e0) tr))
   \<and> (routeRequests_ex (run_ex (fst (constructor_ex e0)) tr') r \<noteq> zeroRequest_ex \<longrightarrow>
        0 < r \<and> r \<le> routeCounter_ex (run_ex (fst (constructor_ex e0)) tr'))"
proof (intro conjI impI)
  assume "requestRouteOptimization e xs ys ps m c s = Inr (s', evs, rid)"
  then have a: "routeCounter s \<noteq> - 1" "rid = routeCounter s + 1"
    "s' = requestState e xs ys ps m c s"
    by (auto simp add: requestRouteOptimization_eq split: if_splits)
  from a show "rid = routeCounter s + 1" by simp
  from a show "unat rid = Suc (unat (routeCounter s))" by (simp add: unat_succ)
  from a show "routeCounter s' = rid" by (simp add: requestState_fields)
next
  assume "requestRouteOptimization_ex e x y p m c t = Inr (t', evs', rid')"
  then have a: "routeCounter_ex t \<noteq> - 1" "rid' = routeCounter_ex t + 1"
    "t' = requestState_ex e m c t"
    by (auto simp add: requestRouteOptimization_ex_eq split: if_splits)
  from a show "rid' = routeCounter_ex t + 1" by simp
  from a show "unat rid' = Suc (unat (routeCounter_ex t))" by (simp add: unat_succ)
  from a show "routeCounter_ex t' = rid'" by (simp add: requestState_ex_fields)
next
  show "unat (routeCounter s) \<le> unat (routeCounter (step s ec))"
    by (rule step_counter_mono)
next
  show "unat (routeCounter_ex t) \<le> unat (routeCounter_ex (step_ex t ec'))"
    by (rule step_ex_counter_mono)
next
  show m: "map unat (returnedIds (constructor e0) tr) =
        [1..<Suc (unat (routeCounter (run (constructor e0) tr)))]"
    using returnedIds_eq [of "constructor e0" tr] by (simp add: constructor_def)
  then show "distinct (returnedIds (constructor e0) tr)" by (rule distinct_of_map_unat)
next
  show m: "map unat (returnedIds_ex (fst (constructor_ex e0)) tr') =
        [1..<Suc (unat (routeCounter_ex (run_ex (fst (constructor_ex e0)) tr')))]"
    using returnedIds_ex_eq [of "fst (constructor_ex e0)" tr'] by (simp add: constructor_ex_def)
  then show "distinct (returnedIds_ex (fst (constructor_ex e0)) tr')"
    by (rule distinct_of_map_unat)
next
  assume a: "routeRequests (run (constructor e0) tr) r \<noteq> zeroRequest"
  have "inv_fresh (run (constructor e0) tr)"
    using inv_run [OF inv_constructor] by (simp add: inv_def)
  with a have "\<not> (r = 0 \<or> routeCounter (run (constructor e0) tr) < r)"
    unfolding inv_fresh_def by blast
  then show "0 < r" "r \<le> routeCounter (run (constructor e0) tr)"
    by (auto simp add: word_neq_0_conv not_less)
next
  assume a: "routeRequests_ex (run_ex (fst (constructor_ex e0)) tr') r \<noteq> zeroRequest_ex"
  have "inv_fresh_ex (run_ex (fst (constructor_ex e0)) tr')"
    using inv_ex_run [OF inv_ex_constructor] by (simp add: inv_ex_def)
  with a have "\<not> (r = 0 \<or> routeCounter_ex (run_ex (fst (constructor_ex e0)) tr') < r)"
    unfolding inv_fresh_ex_def by blast
  then show "0 < r" "r \<le> routeCounter_ex (run_ex (fst (constructor_ex e0)) tr')"
    by (auto simp add: word_neq_0_conv not_less)
qed


theorem route_ids_monotonic_witness:
  "routeCounter requested_core = 1 \<and> routeCounter_ex requested_ex = 1
   \<and> (1 :: uint32) \<le> routeCounter processed_core
   \<and> (1 :: uint32) \<le> routeCounter_ex requested_ex"
proof -
  note inst = route_ids_monotonic [where e = "env_of alice" and xs = "[100, 200, 300]"
      and ys = "[150, 250, 350]" and ps = "[1, 2, 3]" and m = 1000 and c = 10
      and s = fresh_core and s' = requested_core and evs = "[RouteRequested 1 alice 3]"
      and rid = 1 and x = 100 and y = 150 and p = 1 and t = fresh_ex and t' = requested_ex
      and evs' = "[RouteRequested_ex 1 alice 3 1000]" and rid' = 1
      and ec = "(env_of deployer, ProcessRouteOptimization 1)"
      and ec' = "(env_of deployer, TogglePause)" and ?e0.0 = "env_of deployer"
      and tr = "[(env_of alice,
          RequestRouteOptimization [100, 200, 300] [150, 250, 350] [1, 2, 3] 1000 10),
        (env_of deployer, ProcessRouteOptimization 1)]"
      and tr' = "[(env_of alice, RequestRouteOptimization_ex 100 150 1 1000 10),
        (env_of deployer, ProcessRouteOptimization_ex 1)]" and r = 1]
  have a: "routeRequests processed_core 1 \<noteq> zeroRequest"
    using processed_core_fields(5) by (auto simp: zeroRequest_def)
  have b: "routeRequests_ex requested_ex 1 \<noteq> zeroRequest_ex"
    using requested_ex_facts(4) by (auto simp: zeroRequest_ex_def address_nonzero)
  from inst a b show ?thesis
    unfolding run_fixture_core run_fixture_ex
    by (simp add: request_fresh_core request_fresh_ex)
qed

text \<open>
  Claim C2, as amended. First contract: in any storage reached from the constructor, the
  owner's call of \<open>processRouteOptimization\<close> on an existing, unprocessed route succeeds
  and sets \<open>processed\<close>. Pausable contract: in any storage reached from the constructor,
  whatever grants \<open>A\<close> the access control list holds, a call that succeeds was made by the
  owner, on an existing, unprocessed route, while not paused, and sets \<open>processed\<close>. In
  both contracts, after a successful call, whatever transactions follow, the flag stays
  set and every further call fails: with \<open>NotAuthorized\<close> for a caller other than the
  owner, else (pausable contract, while paused) with \<open>ContractPaused\<close>, else with
  \<open>RouteAlreadyProcessed\<close>.
\<close>

theorem process_at_most_once:
  "(s = run (constructor e0) tr \<and> requester (routeRequests s rid) \<noteq> 0
      \<and> \<not> processed (routeRequests s rid) \<and> sender e = owner s \<longrightarrow>
      (\<exists>s' evs. processRouteOptimization e rid s = Inr (s', evs)
         \<and> processed (routeRequests s' rid)
         \<and> (\<forall>tr2 e2. processed (routeRequests (run s' tr2) rid)
               \<and> owner (run s' tr2) = owner s
               \<and> processRouteOptimization e2 rid (run s' tr2) =
                   Inl (if sender e2 \<noteq> owner (run s' tr2) then NotAuthorized
                        else RouteAlreadyProcessed))))
   \<and> (t = (run_ex (fst (constructor_ex e0)) tr')\<lparr>acl_ex := A\<rparr>
      \<and> processRouteOptimization_ex e rid t = Inr (t', evs') \<longrightarrow>
      sender e = owner_ex t \<and> \<not> paused t \<and> requester (routeRequests_ex t rid) \<noteq> 0
      \<and> \<not> processed (routeRequests_ex t rid)
      \<and> processed (routeRequests_ex t' rid)
      \<and> (\<forall>tr2 e2. processed (routeRequests_ex (run_ex t' tr2) rid)
            \<and> processRouteOptimization_ex e2 rid (run_ex t' tr2) =
                Inl (if sender e2 \<noteq> owner_ex (run_ex t' tr2) then NotAuthorized
                     else if paused (run_ex t' tr2) then ContractPaused
                     else RouteAlreadyProcessed)))"
proof (intro conjI impI)
  assume "s = run (constructor e0) tr \<and> requester (routeRequests s rid) \<noteq> 0
      \<and> \<not> processed (routeRequests s rid) \<and> sender e = owner s"
  then have s: "s = run (constructor e0) tr"
    and a: "requester (routeRequests s rid) \<noteq> 0" "\<not> processed (routeRequests s rid)"
      "sender e = owner s"
    by blast+
  have i: "inv s" unfolding s using inv_run [OF inv_constructor] .
  then have cnt: "locationCount (routeRequests s rid) \<noteq> 0"
      "unat (locationCount (routeRequests s rid)) \<le> 255"
    using a by (auto simp add: inv_def inv_count_def)
  let ?s' = "processState e rid s"
  have ok: "processRouteOptimization e rid s =
      Inr (?s', [RouteOptimized rid (requester (routeRequests s rid)) 0])"
    using a cnt by (simp add: processRouteOptimization_eq)
  have "step s (e, ProcessRouteOptimization rid) = ?s'"
    by (simp add: step_def ok)
  then have i': "inv_fresh ?s'"
    using inv_step [OF i, of "(e, ProcessRouteOptimization rid)"] by (simp add: inv_def)
  have p: "processed (routeRequests ?s' rid)" by (simp add: processState_fields)
  have later: "\<forall>tr2 e2. processed (routeRequests (run ?s' tr2) rid)
               \<and> owner (run ?s' tr2) = owner s
               \<and> processRouteOptimization e2 rid (run ?s' tr2) =
                   Inl (if sender e2 \<noteq> owner (run ?s' tr2) then NotAuthorized
                        else RouteAlreadyProcessed)"
  proof (intro allI)
    fix tr2 e2
    have "processed (routeRequests (run ?s' tr2) rid)"
      using processed_run [OF i' p] .
    then show "processed (routeRequests (run ?s' tr2) rid)
               \<and> owner (run ?s' tr2) = owner s
               \<and> processRouteOptimization e2 rid (run ?s' tr2) =
                   Inl (if sender e2 \<noteq> owner (run ?s' tr2) then NotAuthorized
                        else RouteAlreadyProcessed)"
      by (simp add: processRouteOptimization_eq owner_run processState_fields)
  qed
  from ok p later show "\<exists>s' evs. processRouteOptimization e rid s = Inr (s', evs)
         \<and> processed (routeRequests s' rid)
         \<and> (\<forall>tr2 e2. processed (routeRequests (run s' tr2) rid)
               \<and> owner (run s' tr2) = owner s
               \<and> processRouteOptimization e2 rid (run s' tr2) =
                   Inl (if sender e2 \<noteq> owner (run s' tr2) then NotAuthorized
                        else RouteAlreadyProcessed))"
    by blast
next
  assume "t = (run_ex (fst (constructor_ex e0)) tr')\<lparr>acl_ex := A\<rparr>
      \<and> processRouteOptimization_ex e rid t = Inr (t', evs')"
  then have t: "t = (run_ex (fst (constructor_ex e0)) tr')\<lparr>acl_ex := A\<rparr>"
    and ok: "processRouteOptimization_ex e rid t = Inr (t', evs')"
    by blast+
  have "inv_fresh_ex (run_ex (fst (constructor_ex e0)) tr')"
    using inv_ex_run [OF inv_ex_constructor] by (simp add: inv_ex_def)
  then have i: "inv_fresh_ex t" unfolding t by (simp add: inv_fresh_ex_def)
  from ok have a: "sender e = owner_ex t" "\<not> paused t"
      "requester (routeRequests_ex t rid) \<noteq> 0" "\<not> processed (routeRequests_ex t rid)"
    and t': "t' = processState_ex e rid t"
    by (simp_all add: processRouteOptimization_ex_eq split: if_splits)
  from ok have "step_ex t (e, ProcessRouteOptimization_ex rid) = t'"
    by (simp add: step_ex_def)
  then have i': "inv_fresh_ex t'"
    using inv_fresh_ex_step [OF i, of "(e, ProcessRouteOptimization_ex rid)"] by simp
  have p: "processed (routeRequests_ex t' rid)" by (simp add: t' processState_ex_fields)
  have later: "\<forall>tr2 e2. processed (routeRequests_ex (run_ex t' tr2) rid)
               \<and> processRouteOptimization_ex e2 rid (run_ex t' tr2) =
                   Inl (if sender e2 \<noteq> owner_ex (run_ex t' tr2) then NotAuthorized
                        else if paused (run_ex t' tr2) then ContractPaused
                        else RouteAlreadyProcessed)"
  proof (intro allI)
    fix tr2 e2
    have "processed (routeRequests_ex (run_ex t' tr2) rid)"
      using processed_run_ex [OF i' p] .
    then show "processed (routeRequests_ex (run_ex t' tr2) rid)
               \<and> processRouteOptimization_ex e2 rid (run_ex t' tr2) =
                   Inl (if sender e2 \<noteq> owner_ex (run_ex t' tr2) then NotAuthorized
                        else if paused (run_ex t' tr2) then ContractPaused
                        else RouteAlreadyProcessed)"
      by (simp add: processRouteOptimization_ex_eq)
  qed
  from a show "sender e = owner_ex t" "\<not> paused t"
    "requester (routeRequests_ex t rid) \<noteq> 0" "\<not> processed (routeRequests_ex t rid)"
    by simp_all
  from p show "processed (routeRequests_ex t' rid)" .
  from later show "\<forall>tr2 e2. processed (routeRequests_ex (run_ex t' tr2) rid)
            \<and> processRouteOptimization_ex e2 rid (run_ex t' tr2) =
                Inl (if sender e2 \<noteq> owner_ex (run_ex t' tr2) then NotAuthorized
                     else if paused (run_ex t' tr2) then ContractPaused
                     else RouteAlreadyProcessed)" .
qed


theorem process_at_most_once_witness:
  "processRouteOptimization (env_of deployer) 1 processed_core = Inl RouteAlreadyProcessed
   \<and> processRouteOptimization (env_of mallory) 1 processed_core = Inl NotAuthorized
   \<and> processRouteOptimization_ex (env_of deployer) 1 processed_ex = Inl RouteAlreadyProcessed
   \<and> processRouteOptimization_ex (env_of mallory) 1 processed_ex = Inl NotAuthorized"
proof -
  note inst = process_at_most_once [where s = requested_core and ?e0.0 = "env_of deployer"
      and tr = "[(env_of alice,
          RequestRouteOptimization [100, 200, 300] [150, 250, 350] [1, 2, 3] 1000 10)]"
      and rid = 1 and e = "env_of deployer" and t = granted_ex
      and tr' = "[(env_of alice, RequestRouteOptimization_ex 100 150 1 1000 10)]"
      and A = "{(H32 (AsEuint32 1000), self (env_of deployer))}"
      and t' = processed_ex and evs' = "[RouteOptimized_ex 1 alice 1000]"]
  have hc: "requested_core = run (constructor (env_of deployer))
       [(env_of alice,
          RequestRouteOptimization [100, 200, 300] [150, 250, 350] [1, 2, 3] 1000 10)]
     \<and> requester (routeRequests requested_core 1) \<noteq> 0
     \<and> \<not> processed (routeRequests requested_core 1)
     \<and> sender (env_of deployer) = owner requested_core"
    using run_requested_core
    by (simp add: requested_core_fields sender_env_of address_nonzero)
  have hx: "granted_ex = (run_ex (fst (constructor_ex (env_of deployer)))
       [(env_of alice, RequestRouteOptimization_ex 100 150 1 1000 10)])
         \<lparr>acl_ex := {(H32 (AsEuint32 1000), self (env_of deployer))}\<rparr>
     \<and> processRouteOptimization_ex (env_of deployer) 1 granted_ex =
         Inr (processed_ex, [RouteOptimized_ex 1 alice 1000])"
    using run_requested_ex process_granted_ex by (simp add: granted_ex_def)
  from inst hc obtain s' evs where
    s': "processRouteOptimization (env_of deployer) 1 requested_core = Inr (s', evs)"
    and later: "\<And>tr2 e2. processRouteOptimization e2 1 (run s' tr2) =
                   Inl (if sender e2 \<noteq> owner (run s' tr2) then NotAuthorized
                        else RouteAlreadyProcessed)"
    by blast
  from s' have eq: "s' = processed_core" by (simp add: process_requested_core)
  from inst hx have
    later_ex: "\<And>tr2 e2. processRouteOptimization_ex e2 1 (run_ex processed_ex tr2) =
                   Inl (if sender e2 \<noteq> owner_ex (run_ex processed_ex tr2) then NotAuthorized
                        else if paused (run_ex processed_ex tr2) then ContractPaused
                        else RouteAlreadyProcessed)"
    by blast
  from later [of _ "[]"] later_ex [of _ "[]"] show ?thesis
    unfolding eq
    by (simp add: run_Nil run_ex_Nil processed_core_fields processed_ex_facts sender_env_of
        fixture_addresses)
qed

text \<open>
  The claim as stated says the second call fails with \<open>RouteAlreadyProcessed\<close> whoever
  calls. A second call by an account that is not the owner fails with \<open>NotAuthorized\<close>.
\<close>

theorem process_twice_counterexample:
  "processRouteOptimization (env_of deployer) 1 requested_core =
     Inr (processed_core, [RouteOptimized 1 alice 0])
   \<and> processed (routeRequests processed_core 1)
   \<and> processRouteOptimization (env_of mallory) 1 processed_core = Inl NotAuthorized"
proof -
  have "processRouteOptimization (env_of mallory) 1 processed_core = Inl NotAuthorized"
    by (simp add: processRouteOptimization_eq processed_core_fields sender_env_of
        fixture_addresses)
  then show ?thesis
    by (simp add: process_requested_core processed_core_fields)
qed
text \<open>
  Claim C7, as amended: \<open>markDeliveryCompleted\<close> fails with \<open>NotYourRoute\<close> for every
  caller other than the route's requester. For the requester, in the pausable contract it
  fails with \<open>ContractPaused\<close> while paused; otherwise it fails with
  \<open>RouteNotProcessed\<close> if the route is not processed, else with
  \<open>InvalidLocationIndex\<close> if the index is not below the location count, else with
  \<open>LocationAlreadyCompleted\<close> if the location is not active; otherwise it clears
  \<open>isActive\<close> of that one location, emits \<open>DeliveryCompleted\<close>, and changes no
  ciphertext, no grant and nothing else. Once cleared the flag stays cleared in every
  later state, and every later call for that location fails.
\<close>

theorem markDeliveryCompleted_guards:
  "(sender e \<noteq> requester (routeRequests s rid) \<longrightarrow>
      markDeliveryCompleted e rid i s = Inl NotYourRoute)
   \<and> (sender e = requester (routeRequests s rid) \<longrightarrow>
      markDeliveryCompleted e rid i s =
        (if \<not> processed (routeRequests s rid) then Inl RouteNotProcessed
         else if locationCount (routeRequests s rid) \<le> ucast i then Inl InvalidLocationIndex
         else if \<not> isActive (routeLocations s rid i) then Inl LocationAlreadyCompleted
         else Inr (markState rid i s, [DeliveryCompleted rid i])))
   \<and> (\<not> isActive (routeLocations (markState rid i s) rid i)
      \<and> (\<forall>r k. (r, k) \<noteq> (rid, i) \<longrightarrow>
            routeLocations (markState rid i s) r k = routeLocations s r k)
      \<and> encryptedX (routeLocations (markState rid i s) rid i) = encryptedX (routeLocations s rid i)
      \<and> encryptedY (routeLocations (markState rid i s) rid i) = encryptedY (routeLocations s rid i)
      \<and> priority (routeLocations (markState rid i s) rid i) = priority (routeLocations s rid i)
      \<and> routeRequests (markState rid i s) = routeRequests s
      \<and> optimizedRoutes (markState rid i s) = optimizedRoutes s
      \<and> acl (markState rid i s) = acl s)
   \<and> (s = run (constructor e0) tr \<and> markDeliveryCompleted e rid i s = Inr (s', evs) \<longrightarrow>
        (\<forall>tr2 e2. \<not> isActive (routeLocations (run s' tr2) rid i)
           \<and> (\<exists>err. markDeliveryCompleted e2 rid i (run s' tr2) = Inl err)))
   \<and> (sender e \<noteq> requester (routeRequests_ex t rid) \<longrightarrow>
      markDeliveryCompleted_ex e rid i t = Inl NotYourRoute)
   \<and> (sender e = requester (routeRequests_ex t rid) \<longrightarrow>
      markDeliveryCompleted_ex e rid i t =
        (if paused t then Inl ContractPaused
         else if \<not> processed (routeRequests_ex t rid) then Inl RouteNotProcessed
         else if locationCount (routeRequests_ex t rid) \<le> ucast i then Inl InvalidLocationIndex
         else if \<not> isActive (routeLocations_ex t rid i) then Inl LocationAlreadyCompleted
         else Inr (markState_ex rid i t, [DeliveryCompleted_ex rid i (block_timestamp e)])))
   \<and> (\<not> isActive (routeLocations_ex (markState_ex rid i t) rid i)
      \<and> (\<forall>r k. (r, k) \<noteq> (rid, i) \<longrightarrow>
            routeLocations_ex (markState_ex rid i t) r k = routeLocations_ex t r k)
      \<and> encryptedX (routeLocations_ex (markState_ex rid i t) rid i) =
          encryptedX (routeLocations_ex t rid i)
      \<and> encryptedY (routeLocations_ex (markState_ex rid i t) rid i) =
          encryptedY (routeLocations_ex t rid i)
      \<and> priority (routeLocations_ex (markState_ex rid i t) rid i) =
          priority (routeLocations_ex t rid i)
      \<and> routeRequests_ex (markState_ex rid i t) = routeRequests_ex t
      \<and> optimizedRoutes_ex (markState_ex rid i t) = optimizedRoutes_ex t
      \<and> acl_ex (markState_ex rid i t) = acl_ex t)
   \<and> (markDeliveryCompleted_ex e rid i t = Inr (t', evs') \<longrightarrow>
        (\<forall>tr2 e2. \<not> isActive (routeLocations_ex (run_ex t' tr2) rid i)
           \<and> (\<exists>err. markDeliveryCompleted_ex e2 rid i (run_ex t' tr2) = Inl err)))"
proof -
  have 1: "sender e \<noteq> requester (routeRequests s rid) \<longrightarrow>
      markDeliveryCompleted e rid i s = Inl NotYourRoute"
    by (simp add: markDeliveryCompleted_eq)
  have 2: "sender e = requester (routeRequests s rid) \<longrightarrow>
      markDeliveryCompleted e rid i s =
        (if \<not> processed (routeRequests s rid) then Inl RouteNotProcessed
         else if locationCount (routeRequests s rid) \<le> ucast i then Inl InvalidLocationIndex
         else if \<not> isActive (routeLocations s rid i) then Inl LocationAlreadyCompleted
         else Inr (markState rid i s, [DeliveryCompleted rid i]))"
    by (simp add: markDeliveryCompleted_eq)
  have 3: "\<not> isActive (routeLocations (markState rid i s) rid i)
      \<and> (\<forall>r k. (r, k) \<noteq> (rid, i) \<longrightarrow>
            routeLocations (markState rid i s) r k = routeLocations s r k)
      \<and> encryptedX (routeLocations (markState rid i s) rid i) = encryptedX (routeLocations s rid i)
      \<and> encryptedY (routeLocations (markState rid i s) rid i) = encryptedY (routeLocations s rid i)
      \<and> priority (routeLocations (markState rid i s) rid i) = priority (routeLocations s rid i)
      \<and> routeRequests (markState rid i s) = routeRequests s
      \<and> optimizedRoutes (markState rid i s) = optimizedRoutes s
      \<and> acl (markState rid i s) = acl s"
    using markState_frame(1) [of _ _ rid i s]
    by (simp add: markState_isActive markState_fields markState_frame(2,3,4))
  have 4: "s = run (constructor e0) tr \<and> markDeliveryCompleted e rid i s = Inr (s', evs) \<longrightarrow>
        (\<forall>tr2 e2. \<not> isActive (routeLocations (run s' tr2) rid i)
           \<and> (\<exists>err. markDeliveryCompleted e2 rid i (run s' tr2) = Inl err))"
  proof (intro impI allI)
    fix tr2 e2
    assume "s = run (constructor e0) tr \<and> markDeliveryCompleted e rid i s = Inr (s', evs)"
    then have s: "s = run (constructor e0) tr"
      and ok: "markDeliveryCompleted e rid i s = Inr (s', evs)" by blast+
    from ok have s': "s' = markState rid i s" and p: "processed (routeRequests s rid)"
      by (auto simp add: markDeliveryCompleted_eq split: if_splits)
    have "inv_fresh s" unfolding s using inv_run [OF inv_constructor] by (simp add: inv_def)
    moreover from p have "routeRequests s rid \<noteq> zeroRequest" by (auto simp: zeroRequest_def)
    ultimately have "\<not> routeCounter s < rid" by (auto simp: inv_fresh_def)
    then have "\<not> routeCounter s' < rid" by (simp add: s' markState_fields)
    moreover have "\<not> isActive (routeLocations s' rid i)" by (simp add: s' markState_isActive)
    ultimately have na: "\<not> isActive (routeLocations (run s' tr2) rid i)"
      by (rule inactive_run)
    then have "\<exists>err. markDeliveryCompleted e2 rid i (run s' tr2) = Inl err"
      by (simp add: markDeliveryCompleted_eq)
    with na show "\<not> isActive (routeLocations (run s' tr2) rid i)
           \<and> (\<exists>err. markDeliveryCompleted e2 rid i (run s' tr2) = Inl err)" by simp
  qed
  have 5: "sender e \<noteq> requester (routeRequests_ex t rid) \<longrightarrow>
      markDeliveryCompleted_ex e rid i t = Inl NotYourRoute"
    by (simp add: markDeliveryCompleted_ex_eq)
  have 6: "sender e = requester (routeRequests_ex t rid) \<longrightarrow>
      markDeliveryCompleted_ex e rid i t =
        (if paused t then Inl ContractPaused
         else if \<not> processed (routeRequests_ex t rid) then Inl RouteNotProcessed
         else if locationCount (routeRequests_ex t rid) \<le> ucast i then Inl InvalidLocationIndex
         else if \<not> isActive (routeLocations_ex t rid i) then Inl LocationAlreadyCompleted
         else Inr (markState_ex rid i t, [DeliveryCompleted_ex rid i (block_timestamp e)]))"
    by (simp add: markDeliveryCompleted_ex_eq)
  have 7: "\<not> isActive (routeLocations_ex (markState_ex rid i t) rid i)
      \<and> (\<forall>r k. (r, k) \<noteq> (rid, i) \<longrightarrow>
            routeLocations_ex (markState_ex rid i t) r k = routeLocations_ex t r k)
      \<and> encryptedX (routeLocations_ex (markState_ex rid i t) rid i) =
          encryptedX (routeLocations_ex t rid i)
      \<and> encryptedY (routeLocations_ex (markState_ex rid i t) rid i) =
          encryptedY (routeLocations_ex t rid i)
      \<and> priority (routeLocations_ex (markState_ex rid i t) rid i) =
          priority (routeLocations_ex t rid i)
      \<and> routeRequests_ex (markState_ex rid i t) = routeRequests_ex t
      \<and> optimizedRoutes_ex (markState_ex rid i t) = optimizedRoutes_ex t
      \<and> acl_ex (markState_ex rid i t) = acl_ex t"
    using markState_ex_frame(1) [of _ _ rid i t]
    by (simp add: markState_ex_isActive markState_ex_fields markState_ex_frame(2,3,4))
  have 8: "markDeliveryCompleted_ex e rid i t = Inr (t', evs') \<longrightarrow>
        (\<forall>tr2 e2. \<not> isActive (routeLocations_ex (run_ex t' tr2) rid i)
           \<and> (\<exists>err. markDeliveryCompleted_ex e2 rid i (run_ex t' tr2) = Inl err))"
  proof (intro impI allI)
    fix tr2 e2
    assume ok: "markDeliveryCompleted_ex e rid i t = Inr (t', evs')"
    then have t': "t' = markState_ex rid i t"
      by (auto simp add: markDeliveryCompleted_ex_eq split: if_splits)
    have "\<not> isActive (routeLocations_ex t' rid i)" by (simp add: t' markState_ex_isActive)
    then have na: "\<not> isActive (routeLocations_ex (run_ex t' tr2) rid i)"
      by (rule inactive_run_ex)
    then have "\<exists>err. markDeliveryCompleted_ex e2 rid i (run_ex t' tr2) = Inl err"
      by (simp add: markDeliveryCompleted_ex_eq)
    with na show "\<not> isActive (routeLocations_ex (run_ex t' tr2) rid i)
           \<and> (\<exists>err. markDeliveryCompleted_ex e2 rid i (run_ex t' tr2) = Inl err)" by simp
  qed
  show ?thesis
    by (rule conjI [OF 1 conjI [OF 2 conjI [OF 3 conjI [OF 4 conjI [OF 5 conjI [OF 6
      conjI [OF 7 8]]]]]]])
qed


theorem markDeliveryCompleted_guards_witness:
  "markDeliveryCompleted (env_of mallory) 1 0 processed_core = Inl NotYourRoute
   \<and> markDeliveryCompleted (env_of alice) 1 0 requested_core = Inl RouteNotProcessed
   \<and> markDeliveryCompleted (env_of alice) 1 99 processed_core = Inl InvalidLocationIndex
   \<and> markDeliveryCompleted (env_of alice) 1 0 processed_core =
       Inr (markState 1 0 processed_core, [DeliveryCompleted 1 0])
   \<and> (\<exists>err. markDeliveryCompleted (env_of alice) 1 0 (markState 1 0 processed_core) = Inl err)
   \<and> markDeliveryCompleted_ex (env_of mallory) 1 0 processed_ex = Inl NotYourRoute
   \<and> markDeliveryCompleted_ex (env_of alice) 1 0 paused_ex = Inl ContractPaused
   \<and> markDeliveryCompleted_ex (env_of alice) 1 0 requested_ex = Inl RouteNotProcessed
   \<and> markDeliveryCompleted_ex (env_of alice) 1 0 processed_ex = Inl LocationAlreadyCompleted"
proof -
  let ?tr = "[(env_of alice,
          RequestRouteOptimization [100, 200, 300] [150, 250, 350] [1, 2, 3] 1000 10),
        (env_of deployer, ProcessRouteOptimization 1)]"
  note A = markDeliveryCompleted_guards [where e = "env_of mallory" and s = processed_core
      and rid = 1 and i = 0 and t = processed_ex and ?e0.0 = "env_of deployer" and tr = ?tr
      and s' = processed_core and evs = "[]" and t' = processed_ex and evs' = "[]"]
  note B = markDeliveryCompleted_guards [where e = "env_of alice" and s = requested_core
      and rid = 1 and i = 0 and t = requested_ex and ?e0.0 = "env_of deployer" and tr = ?tr
      and s' = processed_core and evs = "[]" and t' = processed_ex and evs' = "[]"]
  note C = markDeliveryCompleted_guards [where e = "env_of alice" and s = processed_core
      and rid = 1 and i = 99 and t = paused_ex and ?e0.0 = "env_of deployer" and tr = ?tr
      and s' = processed_core and evs = "[]" and t' = processed_ex and evs' = "[]"]
  note D = markDeliveryCompleted_guards [where e = "env_of alice" and s = processed_core
      and rid = 1 and i = 0 and t = processed_ex and ?e0.0 = "env_of deployer" and tr = ?tr
      and s' = "markState 1 0 processed_core" and evs = "[DeliveryCompleted 1 0]"
      and t' = processed_ex and evs' = "[]"]
  note E = markDeliveryCompleted_guards [where e = "env_of alice" and s = processed_core
      and rid = 1 and i = 0 and t = paused_ex and ?e0.0 = "env_of deployer" and tr = ?tr
      and s' = processed_core and evs = "[]" and t' = processed_ex and evs' = "[]"]
  have 1: "markDeliveryCompleted (env_of mallory) 1 0 processed_core = Inl NotYourRoute"
    using A [THEN conjunct1]
    by (simp add: sender_env_of processed_core_fields fixture_addresses)
  have 2: "markDeliveryCompleted (env_of alice) 1 0 requested_core = Inl RouteNotProcessed"
    using B [THEN conjunct2, THEN conjunct1]
    by (simp add: sender_env_of requested_core_fields)
  have 3: "markDeliveryCompleted (env_of alice) 1 99 processed_core = Inl InvalidLocationIndex"
    using C [THEN conjunct2, THEN conjunct1]
    by (simp add: sender_env_of processed_core_fields)
  have 4: "markDeliveryCompleted (env_of alice) 1 0 processed_core =
       Inr (markState 1 0 processed_core, [DeliveryCompleted 1 0])"
    using D [THEN conjunct2, THEN conjunct1]
    by (simp add: sender_env_of processed_core_fields processed_core_active)
  have "processed_core = run (constructor (env_of deployer)) ?tr"
    by (simp add: run_fixture_core)
  with 4 D [THEN conjunct2, THEN conjunct2, THEN conjunct2, THEN conjunct1]
  have "\<forall>tr2 e2. \<not> isActive (routeLocations (run (markState 1 0 processed_core) tr2) 1 0)
           \<and> (\<exists>err. markDeliveryCompleted e2 1 0 (run (markState 1 0 processed_core) tr2)
                  = Inl err)"
    by blast
  then have "\<exists>err. markDeliveryCompleted (env_of alice) 1 0
      (run (markState 1 0 processed_core) []) = Inl err" by blast
  then have 5: "\<exists>err. markDeliveryCompleted (env_of alice) 1 0 (markState 1 0 processed_core)
      = Inl err" by (simp add: run_Nil)
  have 6: "markDeliveryCompleted_ex (env_of mallory) 1 0 processed_ex = Inl NotYourRoute"
    using A [THEN conjunct2, THEN conjunct2, THEN conjunct2, THEN conjunct2, THEN conjunct1]
    by (simp add: sender_env_of processed_ex_facts fixture_addresses)
  have 7: "markDeliveryCompleted_ex (env_of alice) 1 0 paused_ex = Inl ContractPaused"
    using E [THEN conjunct2, THEN conjunct2, THEN conjunct2, THEN conjunct2, THEN conjunct2,
        THEN conjunct1]
    by (simp add: sender_env_of paused_ex_facts)
  have 8: "markDeliveryCompleted_ex (env_of alice) 1 0 requested_ex = Inl RouteNotProcessed"
    using B [THEN conjunct2, THEN conjunct2, THEN conjunct2, THEN conjunct2, THEN conjunct2,
        THEN conjunct1]
    by (simp add: sender_env_of requested_ex_facts)
  have 9: "markDeliveryCompleted_ex (env_of alice) 1 0 processed_ex = Inl LocationAlreadyCompleted"
    using D [THEN conjunct2, THEN conjunct2, THEN conjunct2, THEN conjunct2, THEN conjunct2,
        THEN conjunct1]
    unfolding processed_ex_eq
    by (simp add: sender_env_of alice_def zeroLocation_def)
  from 1 2 3 4 5 6 7 8 9 show ?thesis by simp
qed

text \<open>
  The claim as stated says the requester's call on an unprocessed route fails with
  \<open>RouteNotProcessed\<close>. On a paused contract it fails with \<open>ContractPaused\<close>.
\<close>

theorem markDeliveryCompleted_paused_counterexample:
  "sender (env_of alice) = requester (routeRequests_ex pausedreq_ex 1)
   \<and> \<not> processed (routeRequests_ex pausedreq_ex 1)
   \<and> markDeliveryCompleted_ex (env_of alice) 1 0 pausedreq_ex = Inl ContractPaused"
  by (simp add: markDeliveryCompleted_ex_eq sender_env_of pausedreq_ex_facts)

text \<open>
  Claim C4, as amended: while \<open>paused\<close> is set, \<open>requestRouteOptimization\<close> fails with
  \<open>ContractPaused\<close>; \<open>processRouteOptimization\<close> fails with \<open>NotAuthorized\<close> for a
  caller other than the owner and with \<open>ContractPaused\<close> for the owner;
  \<open>markDeliveryCompleted\<close> fails with \<open>NotYourRoute\<close> for a caller other than the
  route's requester and with \<open>ContractPaused\<close> for the requester; none of them changes
  the storage. The queries \<open>getUserRoutes\<close> and \<open>getRouteRequest\<close> answer as usual.
  \<open>getOptimizedRoute\<close> and \<open>getRouteDataForOwner\<close> belong to the contract that has no
  pause flag, where they answer for the requester and the owner of a processed route.
\<close>

theorem pause_gating:
  "(paused t \<longrightarrow>
      requestRouteOptimization_ex e x y p m c t = Inl ContractPaused
      \<and> processRouteOptimization_ex e rid t =
          Inl (if sender e \<noteq> owner_ex t then NotAuthorized else ContractPaused)
      \<and> markDeliveryCompleted_ex e rid i t =
          Inl (if sender e \<noteq> requester (routeRequests_ex t rid) then NotYourRoute
               else ContractPaused)
      \<and> step_ex t (e, RequestRouteOptimization_ex x y p m c) = t
      \<and> step_ex t (e, ProcessRouteOptimization_ex rid) = t
      \<and> step_ex t (e, MarkDeliveryCompleted_ex rid i) = t
      \<and> getUserRoutes_ex u t = userRoutes_ex t u
      \<and> getRouteRequest_ex rid t =
          (requester (routeRequests_ex t rid), locationCount (routeRequests_ex t rid),
           processed (routeRequests_ex t rid), timestamp (routeRequests_ex t rid)))
   \<and> (sender e = requester (routeRequests s rid) \<and> processed (routeRequests s rid) \<longrightarrow>
        getOptimizedRoute e rid s =
          Inr (H32 (totalDistance (optimizedRoutes s rid)),
               H8 (estimatedTime (optimizedRoutes s rid)),
               locationOrder (optimizedRoutes s rid), createdAt (optimizedRoutes s rid)))
   \<and> (sender e = owner s \<and> processed (routeRequests s rid) \<longrightarrow>
        getRouteDataForOwner e rid s =
          Inr (H32 (totalDistance (optimizedRoutes s rid)),
               H8 (estimatedTime (optimizedRoutes s rid)),
               or_requester (optimizedRoutes s rid), createdAt (optimizedRoutes s rid)))"
  by (simp add: requestRouteOptimization_ex_eq processRouteOptimization_ex_eq
      markDeliveryCompleted_ex_eq step_ex_def getUserRoutes_ex_def getRouteRequest_ex_def
      getOptimizedRoute_def getRouteDataForOwner_def Let_def)

theorem pause_gating_witness:
  "requestRouteOptimization_ex (env_of alice) 100 150 1 1000 10 paused_ex = Inl ContractPaused
   \<and> processRouteOptimization_ex (env_of deployer) 1 paused_ex = Inl ContractPaused
   \<and> markDeliveryCompleted_ex (env_of alice) 1 0 paused_ex = Inl ContractPaused
   \<and> processRouteOptimization_ex (env_of mallory) 1 paused_ex = Inl NotAuthorized
   \<and> getUserRoutes_ex alice paused_ex = userRoutes_ex paused_ex alice
   \<and> (\<exists>r. getOptimizedRoute (env_of alice) 1 processed_core = Inr r)
   \<and> (\<exists>r. getRouteDataForOwner (env_of deployer) 1 processed_core = Inr r)"
proof -
  note A = pause_gating [where t = paused_ex and e = "env_of alice" and x = 100 and y = 150
      and p = 1 and m = 1000 and c = 10 and rid = 1 and i = 0 and u = alice
      and s = processed_core]
  note B = pause_gating [where t = paused_ex and e = "env_of deployer" and x = 100 and y = 150
      and p = 1 and m = 1000 and c = 10 and rid = 1 and i = 0 and u = alice
      and s = processed_core]
  note C = pause_gating [where t = paused_ex and e = "env_of mallory" and x = 100 and y = 150
      and p = 1 and m = 1000 and c = 10 and rid = 1 and i = 0 and u = alice
      and s = processed_core]
  have p: "paused paused_ex" by (simp add: paused_ex_facts)
  from A p have 1: "requestRouteOptimization_ex (env_of alice) 100 150 1 1000 10 paused_ex
      = Inl ContractPaused" by simp
  from B p have 2: "processRouteOptimization_ex (env_of deployer) 1 paused_ex
      = Inl ContractPaused" by (simp add: sender_env_of paused_ex_facts)
  from A p have 3: "markDeliveryCompleted_ex (env_of alice) 1 0 paused_ex = Inl ContractPaused"
    by (simp add: sender_env_of paused_ex_facts)
  from C p have 4: "processRouteOptimization_ex (env_of mallory) 1 paused_ex
      = Inl NotAuthorized" by (simp add: sender_env_of paused_ex_facts fixture_addresses)
  from A p have 5: "getUserRoutes_ex alice paused_ex = userRoutes_ex paused_ex alice" by simp
  from A have 6: "\<exists>r. getOptimizedRoute (env_of alice) 1 processed_core = Inr r"
    by (simp add: sender_env_of processed_core_fields)
  from B have 7: "\<exists>r. getRouteDataForOwner (env_of deployer) 1 processed_core = Inr r"
    by (simp add: sender_env_of processed_core_fields)
  from 1 2 3 4 5 6 7 show ?thesis by simp
qed

text \<open>
  The claim as stated says every call of the three entry points fails with
  \<open>ContractPaused\<close>. On a paused contract a stranger's calls fail with \<open>NotAuthorized\<close>
  and \<open>NotYourRoute\<close>: the caller is checked before the pause flag. The same on the
  storage reached from the constructor by a request and a \<open>togglePause\<close>.
\<close>

theorem pause_gating_counterexample:
  "paused paused_ex
   \<and> processRouteOptimization_ex (env_of mallory) 1 paused_ex = Inl NotAuthorized
   \<and> markDeliveryCompleted_ex (env_of mallory) 1 0 paused_ex = Inl NotYourRoute
   \<and> run_ex (fst (constructor_ex (env_of deployer)))
       [(env_of alice, RequestRouteOptimization_ex 100 150 1 1000 10),
        (env_of deployer, TogglePause)] = pausedreq_ex
   \<and> paused pausedreq_ex
   \<and> processRouteOptimization_ex (env_of mallory) 1 pausedreq_ex = Inl NotAuthorized
   \<and> markDeliveryCompleted_ex (env_of mallory) 1 0 pausedreq_ex = Inl NotYourRoute"
  by (simp add: processRouteOptimization_ex_eq markDeliveryCompleted_ex_eq sender_env_of
      paused_ex_facts pausedreq_ex_facts fixture_addresses run_pausedreq_ex)



text \<open>
  Claim C5: every ciphertext written carries a grant for the contract, the ciphertexts of
  a request are granted to the requester as well, and the results of
  \<open>processRouteOptimization\<close> are granted to the contract and to the requester. The first
  contract does so (\<open>request_grants\<close>, \<open>process_grants\<close>). The pausable contract records
  no grant at all. After a request by \<open>alice\<close> on a fresh contract the stored distance
  bound and vehicle capacity are granted neither to the contract nor to \<open>alice\<close>, and the
  owner's \<open>processRouteOptimization\<close> of that route is refused with \<open>ACLNotAllowed\<close>, so
  no result is written. The same request on the first contract grants the stored bound
  and capacity to both, and the owner's call succeeds.
\<close>

theorem examples_contract_grants_nothing:
  "requestRouteOptimization_ex (env_of alice) 100 150 1 1000 10 fresh_ex =
     Inr (requested_ex, [RouteRequested_ex 1 alice 3 1000], 1)
   \<and> maxTravelDistance (routeRequests_ex requested_ex 1) = AsEuint32 1000
   \<and> vehicleCapacity (routeRequests_ex requested_ex 1) = AsEuint8 10
   \<and> \<not> isAllowed (acl_ex requested_ex) (H32 (AsEuint32 1000)) (self (env_of alice))
   \<and> \<not> isAllowed (acl_ex requested_ex) (H32 (AsEuint32 1000)) alice
   \<and> \<not> isAllowed (acl_ex requested_ex) (H8 (AsEuint8 10)) (self (env_of alice))
   \<and> \<not> isAllowed (acl_ex requested_ex) (H8 (AsEuint8 10)) alice
   \<and> processRouteOptimization_ex (env_of deployer) 1 requested_ex = Inl ACLNotAllowed
   \<and> requestRouteOptimization (env_of alice) [100, 200, 300] [150, 250, 350] [1, 2, 3] 1000 10
       fresh_core = Inr (requested_core, [RouteRequested 1 alice 3], 1)
   \<and> maxTravelDistance (routeRequests requested_core 1) = AsEuint32 1000
   \<and> vehicleCapacity (routeRequests requested_core 1) = AsEuint8 10
   \<and> isAllowed (acl requested_core) (H32 (AsEuint32 1000)) (self (env_of alice))
   \<and> isAllowed (acl requested_core) (H32 (AsEuint32 1000)) alice
   \<and> isAllowed (acl requested_core) (H8 (AsEuint8 10)) (self (env_of alice))
   \<and> isAllowed (acl requested_core) (H8 (AsEuint8 10)) alice
   \<and> processRouteOptimization (env_of deployer) 1 requested_core =
       Inr (processed_core, [RouteOptimized 1 alice 0])"
proof -
  have a: "acl_ex requested_ex = {}" unfolding requested_ex_eq by simp
  have b: "maxTravelDistance (routeRequests_ex requested_ex 1) = AsEuint32 1000"
    "vehicleCapacity (routeRequests_ex requested_ex 1) = AsEuint8 10"
    unfolding requested_ex_eq by simp_all
  have c: "maxTravelDistance (routeRequests requested_core 1) = AsEuint32 1000"
    "vehicleCapacity (routeRequests requested_core 1) = AsEuint8 10"
    by (simp_all add: requested_core_eq requestState_fields fresh_core_fields)
  have d: "{(H32 (AsEuint32 1000), self (env_of alice)), (H8 (AsEuint8 10), self (env_of alice)),
      (H32 (AsEuint32 1000), alice), (H8 (AsEuint8 10), alice)} \<subseteq> acl requested_core"
    unfolding requested_core_eq requestState_acl by (simp add: sender_env_of)
  then have e: "isAllowed (acl requested_core) (H32 (AsEuint32 1000)) (self (env_of alice))"
    "isAllowed (acl requested_core) (H32 (AsEuint32 1000)) alice"
    "isAllowed (acl requested_core) (H8 (AsEuint8 10)) (self (env_of alice))"
    "isAllowed (acl requested_core) (H8 (AsEuint8 10)) alice"
    by (simp_all add: isAllowed_def)
  from a b c e show ?thesis
    by (simp add: request_fresh_ex process_requested_ex request_fresh_core
        process_requested_core isAllowed_def)
qed
lemma west_core_eq:
  "west_core = requestState (env_of alice) [5, 3] [0, 0] [1, 1] 1000 10 fresh_core"
  by (simp add: west_core_def step_def requestRouteOptimization_eq fresh_core_fields)

lemma west_core_fields:
  "owner west_core = deployer" "routeCounter west_core = 1"
  "requester (routeRequests west_core 1) = alice"
  "locationCount (routeRequests west_core 1) = 2"
  "\<not> processed (routeRequests west_core 1)"
  by (simp_all add: west_core_eq requestState_fields fresh_core_fields sender_env_of)

lemma west_core_locations:
  "routeLocations west_core 1 0 =
     \<lparr>encryptedX = AsEuint32 5, encryptedY = AsEuint32 0, priority = AsEuint8 1,
      isActive = True\<rparr>"
  "routeLocations west_core 1 1 =
     \<lparr>encryptedX = AsEuint32 3, encryptedY = AsEuint32 0, priority = AsEuint8 1,
      isActive = True\<rparr>"
  using requestState_location [of 0 "[5, 3]" "env_of alice" "[0, 0]" "[1, 1]" 1000 10 fresh_core]
    requestState_location [of 1 "[5, 3]" "env_of alice" "[0, 0]" "[1, 1]" 1000 10 fresh_core]
  by (simp_all add: west_core_eq fresh_core_fields)

lemma west_processed_eq: "west_processed = processState (env_of deployer) 1 west_core"
  by (simp add: west_processed_def step_def processRouteOptimization_eq west_core_fields
      sender_env_of alice_def)

lemma process_west_core:
  "processRouteOptimization (env_of deployer) 1 west_core =
     Inr (west_processed, [RouteOptimized 1 alice 0])"
  by (simp add: west_processed_eq processRouteOptimization_eq west_core_fields
      sender_env_of alice_def)

lemma west_total:
  "totalDistance (optimizedRoutes west_processed 1) =
     Add32 (AsEuint32 0)
       (Add32 (Sub32 (AsEuint32 3) (AsEuint32 5)) (Sub32 (AsEuint32 0) (AsEuint32 0)))"
  using distanceFold_Suc [of 0 0 west_core 1 "AsEuint32 0"]
  by (simp add: west_processed_eq processState_fields west_core_fields distanceFold_triv
      calculateDistance_def west_core_locations)

text \<open>
  Claim C1: the total distance stored by \<open>processRouteOptimization\<close> is the sum, over
  consecutive locations, of the Manhattan distance \<open>|x2 - x1| + |y2 - y1|\<close>. The code
  adds the two differences without taking absolute values, modulo \<open>2 ^ 32\<close>. For the
  route \<open>(5, 0), (3, 0)\<close> the stored ciphertext is \<open>0 + ((3 - 5) + (0 - 0))\<close>, which
  decrypts to \<open>4294967294\<close>, while the Manhattan distance is 2.
\<close>

theorem totalDistance_not_manhattan:
  "requestRouteOptimization (env_of alice) [5, 3] [0, 0] [1, 1] 1000 10 fresh_core =
     Inr (west_core, [RouteRequested 1 alice 2], 1)
   \<and> processRouteOptimization (env_of deployer) 1 west_core =
     Inr (west_processed, [RouteOptimized 1 alice 0])
   \<and> totalDistance (optimizedRoutes west_processed 1) =
     Add32 (AsEuint32 0)
       (Add32 (Sub32 (AsEuint32 3) (AsEuint32 5)) (Sub32 (AsEuint32 0) (AsEuint32 0)))
   \<and> decrypt32 (totalDistance (optimizedRoutes west_processed 1)) = 4294967294
   \<and> manhattan [5, 3] [0, 0] = 2"
proof -
  have "requestRouteOptimization (env_of alice) [5, 3] [0, 0] [1, 1] 1000 10 fresh_core =
     Inr (west_core, [RouteRequested 1 alice 2], 1)"
    by (simp add: west_core_eq requestRouteOptimization_eq fresh_core_fields sender_env_of)
  moreover have "manhattan [5, 3] [0, 0] = 2"
    by (simp add: absDiff_def)
  moreover have "decrypt32 (totalDistance (optimizedRoutes west_processed 1)) = 4294967294"
    by (simp add: west_total)
  ultimately show ?thesis by (simp add: process_west_core west_total)
qed

lemma observe_fixture_core:
  "observe (constructor (env_of deployer))
     [(env_of alice, RequestRouteOptimization [100, 200, 300] [150, 250, 350] [1, 2, 3] 1000 10),
      (env_of deployer, ProcessRouteOptimization 1),
      (env_of alice, MarkDeliveryCompleted 1 0)] =
   [Inr [RouteRequested 1 alice 3], Inr [RouteOptimized 1 alice 0],
    Inr [DeliveryCompleted 1 0]]"
proof -
  have a: "outcome fresh_core (env_of alice,
      RequestRouteOptimization [100, 200, 300] [150, 250, 350] [1, 2, 3] 1000 10) =
      Inr [RouteRequested 1 alice 3]"
    by (simp add: outcome_def request_fresh_core)
  have b: "outcome requested_core (env_of deployer, ProcessRouteOptimization 1) =
      Inr [RouteOptimized 1 alice 0]"
    by (simp add: outcome_def process_requested_core)
  have c: "outcome processed_core (env_of alice, MarkDeliveryCompleted 1 0) =
      Inr [DeliveryCompleted 1 0]"
    by (simp add: outcome_mark sender_env_of processed_core_fields processed_core_active)
  have "constructor (env_of deployer) = fresh_core" by (simp add: fresh_core_def)
  with a b c show ?thesis
    by (simp add: requested_core_def [symmetric] processed_core_def [symmetric])
qed

lemma observe_fixture_ex:
  "observe_ex (fst (constructor_ex (env_of deployer)))
     [(env_of alice, RequestRouteOptimization_ex 100 150 1 1000 10),
      (env_of deployer, ProcessRouteOptimization_ex 1),
      (env_of deployer, FinalizeRoute 1)] =
   [Inr [RouteRequested_ex 1 alice 3 1000], Inl ACLNotAllowed, Inl RouteNotProcessed]"
proof -
  have a: "outcome_ex fresh_ex (env_of alice, RequestRouteOptimization_ex 100 150 1 1000 10) =
      Inr [RouteRequested_ex 1 alice 3 1000]"
    by (simp add: outcome_ex_def request_fresh_ex)
  have b: "outcome_ex requested_ex (env_of deployer, ProcessRouteOptimization_ex 1) =
      Inl ACLNotAllowed"
    by (simp add: outcome_ex_def process_requested_ex)
  have b': "step_ex requested_ex (env_of deployer, ProcessRouteOptimization_ex 1) = requested_ex"
    by (simp add: step_ex_def process_requested_ex)
  have c: "outcome_ex requested_ex (env_of deployer, FinalizeRoute 1) =
      Inl RouteNotProcessed"
    by (simp add: outcome_ex_eqs sender_env_of requested_ex_facts)
  have "fst (constructor_ex (env_of deployer)) = fresh_ex" by (simp add: fresh_ex_def)
  with a b b' c show ?thesis
    by (simp add: requested_ex_def [symmetric])
qed

text \<open>
  Claim C6: two runs from the constructor whose transactions differ only in confidential
  inputs give the same observation, transaction by transaction: the same revert or the
  same list of events with the same parameters. Both contracts.
\<close>

theorem events_independent_of_confidential_inputs:
  "(list_all2 conf_eq tr tr' \<longrightarrow> observe (constructor e0) tr = observe (constructor e0) tr')
   \<and> (list_all2 conf_eq_ex tx tx' \<longrightarrow>
        observe_ex (fst (constructor_ex e0)) tx = observe_ex (fst (constructor_ex e0)) tx')"
proof -
  have "acl_ex (fst (constructor_ex e0)) = {}" by (simp add: constructor_ex_def)
  from noninterference_run_ex [OF low_eq_ex_refl _ this this]
  have "list_all2 conf_eq_ex tx tx' \<longrightarrow>
        observe_ex (fst (constructor_ex e0)) tx = observe_ex (fst (constructor_ex e0)) tx'"
    by blast
  with noninterference_run [OF low_eq_refl] show ?thesis by blast
qed

theorem events_independent_of_confidential_inputs_witness:
  "observe (constructor (env_of deployer))
     [(env_of alice, RequestRouteOptimization [5, 3, 9] [0, 0, 7] [9, 8, 7] 7 7),
      (env_of deployer, ProcessRouteOptimization 1),
      (env_of alice, MarkDeliveryCompleted 1 0)] =
   [Inr [RouteRequested 1 alice 3], Inr [RouteOptimized 1 alice 0],
    Inr [DeliveryCompleted 1 0]]
   \<and> observe_ex (fst (constructor_ex (env_of deployer)))
     [(env_of alice, RequestRouteOptimization_ex 5 0 9 7 7),
      (env_of deployer, ProcessRouteOptimization_ex 1),
      (env_of deployer, FinalizeRoute 1)] =
   [Inr [RouteRequested_ex 1 alice 3 1000], Inl ACLNotAllowed, Inl RouteNotProcessed]"
proof -
  note inst = events_independent_of_confidential_inputs [where ?e0.0 = "env_of deployer"
      and tr = "[(env_of alice,
          RequestRouteOptimization [100, 200, 300] [150, 250, 350] [1, 2, 3] 1000 10),
        (env_of deployer, ProcessRouteOptimization 1),
        (env_of alice, MarkDeliveryCompleted 1 0)]"
      and tr' = "[(env_of alice, RequestRouteOptimization [5, 3, 9] [0, 0, 7] [9, 8, 7] 7 7),
        (env_of deployer, ProcessRouteOptimization 1),
        (env_of alice, MarkDeliveryCompleted 1 0)]"
      and tx = "[(env_of alice, RequestRouteOptimization_ex 100 150 1 1000 10),
        (env_of deployer, ProcessRouteOptimization_ex 1),
        (env_of deployer, FinalizeRoute 1)]"
      and tx' = "[(env_of alice, RequestRouteOptimization_ex 5 0 9 7 7),
        (env_of deployer, ProcessRouteOptimization_ex 1),
        (env_of deployer, FinalizeRoute 1)]"]
  have h: "list_all2 conf_eq
      [(env_of alice,
          RequestRouteOptimization [100, 200, 300] [150, 250, 350] [1, 2, 3] 1000 10),
        (env_of deployer, ProcessRouteOptimization 1),
        (env_of alice, MarkDeliveryCompleted 1 0)]
      [(env_of alice, RequestRouteOptimization [5, 3, 9] [0, 0, 7] [9, 8, 7] 7 7),
        (env_of deployer, ProcessRouteOptimization 1),
        (env_of alice, MarkDeliveryCompleted 1 0)]"
    by (simp add: conf_eq_def)
  have hx: "list_all2 conf_eq_ex
      [(env_of alice, RequestRouteOptimization_ex 100 150 1 1000 10),
        (env_of deployer, ProcessRouteOptimization_ex 1),
        (env_of deployer, FinalizeRoute 1)]
      [(env_of alice, RequestRouteOptimization_ex 5 0 9 7 7),
        (env_of deployer, ProcessRouteOptimization_ex 1),
        (env_of deployer, FinalizeRoute 1)]"
    by (simp add: conf_eq_ex_def)
  from inst [THEN conjunct1, THEN mp, OF h] inst [THEN conjunct2, THEN mp, OF hx]
  show ?thesis
    by (simp only: observe_fixture_core observe_fixture_ex simp_thms)
qed

text \<open>
  Claim C9, as amended: \<open>finalizeRoute\<close> fails with \<open>NotAuthorized\<close> for every caller
  other than the owner, and for the owner with \<open>ContractPaused\<close> while the contract is
  paused. For the owner on a contract that is not paused it fails with
  \<open>RouteNotProcessed\<close> exactly when the route is not processed, and otherwise sets
  \<open>finalized\<close>, changes nothing else and emits \<open>RouteFinalized\<close>; a repeated call
  succeeds again, leaves the storage as it is and emits the event again.
\<close>

theorem finalizeRoute_guards:
  "(sender e \<noteq> owner_ex s \<longrightarrow> finalizeRoute e rid s = Inl NotAuthorized)
   \<and> (sender e = owner_ex s \<and> paused s \<longrightarrow> finalizeRoute e rid s = Inl ContractPaused)
   \<and> (sender e = owner_ex s \<and> \<not> paused s \<longrightarrow>
        (finalizeRoute e rid s = Inl RouteNotProcessed
           \<longleftrightarrow> \<not> processed (routeRequests_ex s rid)))
   \<and> (sender e = owner_ex s \<and> \<not> paused s \<and> processed (routeRequests_ex s rid) \<longrightarrow>
        finalizeRoute e rid s =
          Inr (s\<lparr>optimizedRoutes_ex := (optimizedRoutes_ex s)
                  (rid := (optimizedRoutes_ex s rid)\<lparr>finalized := True\<rparr>)\<rparr>,
               [RouteFinalized rid 0 0])
        \<and> (\<forall>s' evs. finalizeRoute e rid s = Inr (s', evs) \<longrightarrow>
              finalized (optimizedRoutes_ex s' rid)
              \<and> finalizeRoute e rid s' = Inr (s', [RouteFinalized rid 0 0])))"
proof (intro conjI impI allI)
  assume "sender e \<noteq> owner_ex s"
  then show "finalizeRoute e rid s = Inl NotAuthorized" by (simp add: finalizeRoute_def)
next
  assume "sender e = owner_ex s \<and> paused s"
  then show "finalizeRoute e rid s = Inl ContractPaused" by (simp add: finalizeRoute_def)
next
  assume "sender e = owner_ex s \<and> \<not> paused s"
  then show "finalizeRoute e rid s = Inl RouteNotProcessed
           \<longleftrightarrow> \<not> processed (routeRequests_ex s rid)" by (simp add: finalizeRoute_def)
next
  assume "sender e = owner_ex s \<and> \<not> paused s \<and> processed (routeRequests_ex s rid)"
  then show "finalizeRoute e rid s =
          Inr (s\<lparr>optimizedRoutes_ex := (optimizedRoutes_ex s)
                  (rid := (optimizedRoutes_ex s rid)\<lparr>finalized := True\<rparr>)\<rparr>,
               [RouteFinalized rid 0 0])" by (simp add: finalizeRoute_def)
next
  fix s' evs
  assume a: "sender e = owner_ex s \<and> \<not> paused s \<and> processed (routeRequests_ex s rid)"
    and b: "finalizeRoute e rid s = Inr (s', evs)"
  from a b have s': "s' = s\<lparr>optimizedRoutes_ex := (optimizedRoutes_ex s)
                  (rid := (optimizedRoutes_ex s rid)\<lparr>finalized := True\<rparr>)\<rparr>"
    by (simp add: finalizeRoute_def)
  show "finalized (optimizedRoutes_ex s' rid)" by (simp add: s')
  from a show "finalizeRoute e rid s' = Inr (s', [RouteFinalized rid 0 0])"
    unfolding s' by (simp add: finalizeRoute_def)
qed

theorem finalizeRoute_guards_witness:
  "finalizeRoute (env_of mallory) 1 processed_ex = Inl NotAuthorized
   \<and> finalizeRoute (env_of deployer) 1 paused_ex = Inl ContractPaused
   \<and> finalizeRoute (env_of deployer) 2 processed_ex = Inl RouteNotProcessed
   \<and> finalizeRoute (env_of deployer) 1 processed_ex =
       Inr (processed_ex\<lparr>optimizedRoutes_ex := (optimizedRoutes_ex processed_ex)
              (1 := (optimizedRoutes_ex processed_ex 1)\<lparr>finalized := True\<rparr>)\<rparr>,
            [RouteFinalized 1 0 0])"
proof -
  have a: "sender (env_of mallory) \<noteq> owner_ex processed_ex"
    by (simp add: sender_env_of processed_ex_facts fixture_addresses)
  have b: "sender (env_of deployer) = owner_ex paused_ex \<and> paused paused_ex"
    by (simp add: sender_env_of paused_ex_facts)
  have c: "sender (env_of deployer) = owner_ex processed_ex \<and> \<not> paused processed_ex"
    by (simp add: sender_env_of processed_ex_facts)
  have d: "\<not> processed (routeRequests_ex processed_ex 2)"
    unfolding processed_ex_eq by (simp add: zeroRequest_ex_def)
  have e: "processed (routeRequests_ex processed_ex 1)"
    by (simp add: processed_ex_facts)
  have 1: "finalizeRoute (env_of mallory) 1 processed_ex = Inl NotAuthorized"
    using finalizeRoute_guards [of "env_of mallory" processed_ex 1] a by simp
  have 2: "finalizeRoute (env_of deployer) 1 paused_ex = Inl ContractPaused"
    using finalizeRoute_guards [of "env_of deployer" paused_ex 1] b by simp
  have 3: "finalizeRoute (env_of deployer) 2 processed_ex = Inl RouteNotProcessed"
    using finalizeRoute_guards [of "env_of deployer" processed_ex 2] c d by simp
  have 4: "finalizeRoute (env_of deployer) 1 processed_ex =
       Inr (processed_ex\<lparr>optimizedRoutes_ex := (optimizedRoutes_ex processed_ex)
              (1 := (optimizedRoutes_ex processed_ex 1)\<lparr>finalized := True\<rparr>)\<rparr>,
            [RouteFinalized 1 0 0])"
    using finalizeRoute_guards [of "env_of deployer" processed_ex 1] c e by simp
  from 1 2 3 4 show ?thesis by simp
qed

text \<open>
  The claim as stated lets the owner's call on a processed route always finalize, and
  fail with \<open>RouteNotProcessed\<close> on an unprocessed one. On a paused contract it fails with
  \<open>ContractPaused\<close> in both cases; the second is shown on a storage reached from the
  constructor by a request and a \<open>togglePause\<close>.
\<close>

theorem finalizeRoute_paused_counterexample:
  "sender (env_of deployer) = owner_ex paused_ex
   \<and> processed (routeRequests_ex paused_ex 1)
   \<and> finalizeRoute (env_of deployer) 1 paused_ex = Inl ContractPaused
   \<and> run_ex (fst (constructor_ex (env_of deployer)))
       [(env_of alice, RequestRouteOptimization_ex 100 150 1 1000 10),
        (env_of deployer, TogglePause)] = pausedreq_ex
   \<and> sender (env_of deployer) = owner_ex pausedreq_ex
   \<and> \<not> processed (routeRequests_ex pausedreq_ex 1)
   \<and> finalizeRoute (env_of deployer) 1 pausedreq_ex = Inl ContractPaused"
  by (simp add: sender_env_of paused_ex_facts pausedreq_ex_facts finalizeRoute_def
      run_pausedreq_ex)

end
